theory Spec2Isabelle
  imports Main "HOL-Library.Word" "HOL-Library.Sublist"
begin

section \<open>Extension manifests and the extension registry\<close>

subsection \<open>Data model (manifest.types, extension.types)\<close>

text \<open>
  The manifest interfaces of the repository, as records. The fields that no modelled
  function reads (resources, configuration, monitoring, extended metadata) are left out of
  the typed view; the packaging service below handles a manifest as a JSON document and
  keeps every field. Record fields are global constants in HOL, so the fields \<open>id\<close>,
  \<open>name\<close>, \<open>version\<close>, \<open>optional\<close> and \<open>type\<close> carry the name of their
  interface as a prefix.
\<close>

datatype ExtensionType = TemplatePack | Tool | Theme | Integration | ResourcePack

datatype Permission =
    DocumentRead | DocumentWrite | TemplateCreate | TemplateRead | LayerCreate
  | ResourceRead | NetworkAccess | CloudStorageRead | CloudStorageWrite
  | FileSystemRead | FileSystemWrite | ExternalAuth | CodeExecution | NativeModule

fun permission_name :: "Permission \<Rightarrow> string" where
  "permission_name DocumentRead = ''document-read''"
| "permission_name DocumentWrite = ''document-write''"
| "permission_name TemplateCreate = ''template-create''"
| "permission_name TemplateRead = ''template-read''"
| "permission_name LayerCreate = ''layer-create''"
| "permission_name ResourceRead = ''resource-read''"
| "permission_name NetworkAccess = ''network-access''"
| "permission_name CloudStorageRead = ''cloud-storage-read''"
| "permission_name CloudStorageWrite = ''cloud-storage-write''"
| "permission_name FileSystemRead = ''file-system-read''"
| "permission_name FileSystemWrite = ''file-system-write''"
| "permission_name ExternalAuth = ''external-auth''"
| "permission_name CodeExecution = ''code-execution''"
| "permission_name NativeModule = ''native-module''"

record Dependency =
  dep_id :: string
  dep_version :: string
  dep_optional :: bool

record Requirements =
  minAppVersion :: string
  maxAppVersion :: "string option"
  dependencies :: "Dependency list"

record Permissions =
  required :: "Permission list"
  optional :: "Permission list"
  restrictedApis :: "string list"

record LifecycleScript =
  script :: "string option"
  timeout :: "int option"

record Lifecycle =
  onInstall :: "LifecycleScript option"
  onEnable :: "LifecycleScript option"
  onDisable :: "LifecycleScript option"
  onUninstall :: "LifecycleScript option"

record Metadata =
  meta_id :: string
  meta_name :: string
  meta_version :: string
  meta_description :: string
  meta_license :: string

record ExtensionManifest =
  metadata :: Metadata
  ext_type :: ExtensionType
  category :: string
  tags :: "string list"
  requirements :: Requirements
  permissions :: Permissions
  lifecycle :: "Lifecycle option"

datatype ExtensionStatus = Installed | Enabled | Disabled | Degraded | Error

text \<open>Dates are milliseconds since the epoch.\<close>

record Extension =
  ext_id :: string
  manifest :: ExtensionManifest
  status :: ExtensionStatus
  installPath :: string
  installedAt :: int
  enabledAt :: "int option"
  ext_error :: "string option"

text \<open>A thrown \<open>Error\<close>, with its message.\<close>

datatype js_error = JsError string

subsection \<open>ExtensionRegistry: enable, disable, uninstall\<close>

text \<open>
  The registry's \<open>extensions\<close> map. The methods mutate the map and the stored objects in
  place and may throw; the model returns the thrown error, if any, together with the map
  as the call leaves it. Console output is not modelled, so the lifecycle hooks, which only
  log, leave no trace. \<open>enable\<close> reads the clock (\<open>new Date()\<close>) for \<open>enabledAt\<close>; the
  reading is the parameter \<open>now\<close>.
\<close>

type_synonym registry = "string \<rightharpoonup> Extension"

definition enable :: "registry \<Rightarrow> string \<Rightarrow> int \<Rightarrow> js_error option \<times> registry" where
  "enable extensions extensionId now =
     (case extensions extensionId of
        None \<Rightarrow> (Some (JsError (''Extension not found: '' @ extensionId)), extensions)
      | Some extension \<Rightarrow>
          if status extension = Enabled then (None, extensions)
          else (None, extensions(extensionId \<mapsto>
                  extension\<lparr>status := Enabled, enabledAt := Some now\<rparr>)))"

definition disable :: "registry \<Rightarrow> string \<Rightarrow> js_error option \<times> registry" where
  "disable extensions extensionId =
     (case extensions extensionId of
        None \<Rightarrow> (Some (JsError (''Extension not found: '' @ extensionId)), extensions)
      | Some extension \<Rightarrow>
          if status extension = Disabled then (None, extensions)
          else (None, extensions(extensionId \<mapsto> extension\<lparr>status := Disabled\<rparr>)))"

definition uninstall :: "registry \<Rightarrow> string \<Rightarrow> js_error option \<times> registry" where
  "uninstall extensions extensionId =
     (case extensions extensionId of
        None \<Rightarrow> (Some (JsError (''Extension not found: '' @ extensionId)), extensions)
      | Some extension \<Rightarrow>
          (case (if status extension = Enabled then disable extensions extensionId
                 else (None, extensions)) of
             (Some e, extensions') \<Rightarrow> (Some e, extensions')
           | (None, extensions') \<Rightarrow> (None, extensions'(extensionId := None))))"

text \<open>The status of an extension in a registry, if it is registered.\<close>

definition status_of :: "registry \<Rightarrow> string \<Rightarrow> ExtensionStatus option" where
  "status_of extensions extensionId = map_option status (extensions extensionId)"

text \<open>An extension for the examples: a theme pack without dependencies.\<close>

definition demo_manifest :: ExtensionManifest where
  "demo_manifest =
     \<lparr>metadata = \<lparr>meta_id = ''com.acme.mathpack'', meta_name = ''Math Pack'',
                  meta_version = ''1.0.0'', meta_description = ''Themes'',
                  meta_license = ''MIT''\<rparr>,
      ext_type = Theme, category = ''themes'', tags = [''theme''],
      requirements = \<lparr>minAppVersion = ''1.0.0'', maxAppVersion = None, dependencies = []\<rparr>,
      permissions = \<lparr>required = [], optional = [], restrictedApis = []\<rparr>,
      lifecycle = None\<rparr>"

definition demo_extension :: "ExtensionStatus \<Rightarrow> Extension" where
  "demo_extension st =
     \<lparr>ext_id = ''com.acme.mathpack'', manifest = demo_manifest, status = st,
      installPath = ''/extensions/mathpack'', installedAt = 1000, enabledAt = None,
      ext_error = None\<rparr>"

section \<open>Validation utilities (validation.ts)\<close>

subsection \<open>Strings, numbers and regular expressions of the language\<close>

text \<open>
  A string is a list of characters. \<open>split_js c s\<close> is \<open>s.split(c)\<close> for a separator of one
  character: it never returns the empty list (\<open>"".split(".")\<close> is \<open>[""]\<close>).
  \<open>join_js\<close> is \<open>Array.prototype.join\<close>.
\<close>

fun split_js :: "char \<Rightarrow> string \<Rightarrow> string list" where
  "split_js c [] = [[]]"
| "split_js c (x # xs) =
     (if x = c then [] # split_js c xs
      else (case split_js c xs of [] \<Rightarrow> [[x]] | y # ys \<Rightarrow> (x # y) # ys))"

fun join_js :: "string \<Rightarrow> string list \<Rightarrow> string" where
  "join_js sep [] = []"
| "join_js sep [x] = x"
| "join_js sep (x # y # ys) = x @ sep @ join_js sep (y # ys)"

text \<open>
  Reading an array out of range gives \<open>undefined\<close>, here \<open>None\<close>.
\<close>

definition at_js :: "'a list \<Rightarrow> nat \<Rightarrow> 'a option" where
  "at_js xs i = (if i < length xs then Some (xs ! i) else None)"

text \<open>
  The numbers the version functions meet. \<open>Number\<close> and \<open>parseInt\<close> are applied to the
  pieces of a version string; on a string of decimal digits both give the double nearest
  to its value (ties to even), which is the value itself below \<open>2^53\<close> and \<open>Infinity\<close>
  from \<open>2^1024 - 2^970\<close> on. \<open>Number\<close> of the empty string is \<open>0\<close>. Every other string
  is \<open>NaN\<close> here: the model leaves out signs, white space, exponents and the hexadecimal,
  octal and binary prefixes, which no version or range this development states a property
  of contains. \<open>parseInt\<close> reads the longest prefix of digits.
\<close>

datatype jsnum = NaN | Num int | PosInfinity

fun bit_len :: "nat \<Rightarrow> nat" where
  "bit_len n = (if n = 0 then 0 else Suc (bit_len (n div 2)))"

declare bit_len.simps [simp del]

definition to_double :: "nat \<Rightarrow> jsnum" where
  "to_double n =
     (if n < 9007199254740992 then Num (int n)
      else let e = bit_len n - 53;
               q = n div 2 ^ e;
               r = n mod 2 ^ e;
               h = 2 ^ (e - 1);
               q' = (if h < r \<or> (r = h \<and> odd q) then q + 1 else q);
               v = q' * 2 ^ e
           in if 2 ^ 1024 \<le> v then PosInfinity else Num (int v))"

definition is_digit :: "char \<Rightarrow> bool" where
  "is_digit c = (48 \<le> (of_char c :: nat) \<and> (of_char c :: nat) \<le> 57)"

definition digit_val :: "char \<Rightarrow> nat" where
  "digit_val c = of_char c - 48"

definition decimal :: "string \<Rightarrow> nat" where
  "decimal s = foldl (\<lambda>n c. 10 * n + digit_val c) 0 s"

definition Number :: "string \<Rightarrow> jsnum" where
  "Number s = (if list_all is_digit s then to_double (decimal s) else NaN)"

definition parseInt :: "string \<Rightarrow> jsnum" where
  "parseInt s =
     (let ds = takeWhile is_digit s in if ds = [] then NaN else to_double (decimal ds))"

text \<open>
  The comparisons \<open>>\<close>, \<open><\<close> on numbers, where \<open>undefined\<close> counts as \<open>NaN\<close> and every
  comparison with \<open>NaN\<close> is false, and \<open>===\<close> on a number or \<open>undefined\<close>, where
  \<open>undefined\<close> equals itself and \<open>NaN\<close> equals nothing.
\<close>

fun num_gt :: "jsnum \<Rightarrow> jsnum \<Rightarrow> bool" where
  "num_gt (Num a) (Num b) = (b < a)"
| "num_gt PosInfinity (Num b) = True"
| "num_gt _ _ = False"

definition js_gt :: "jsnum option \<Rightarrow> jsnum option \<Rightarrow> bool" where
  "js_gt a b = num_gt (case a of None \<Rightarrow> NaN | Some x \<Rightarrow> x)
                      (case b of None \<Rightarrow> NaN | Some y \<Rightarrow> y)"

definition js_lt :: "jsnum option \<Rightarrow> jsnum option \<Rightarrow> bool" where
  "js_lt a b = js_gt b a"

definition strict_eq :: "jsnum option \<Rightarrow> jsnum option \<Rightarrow> bool" where
  "strict_eq a b = (a = b \<and> a \<noteq> Some NaN)"

text \<open>
  Regular expressions without groups or look-around, matched from the first to the last
  character (every pattern of the repository is anchored with \<open>^\<close> and \<open>$\<close>, and none
  sets a flag). A character class is a list of ranges of character codes. \<open>regex_test\<close>
  is \<open>RegExp.prototype.test\<close>, by derivatives.
\<close>

type_synonym cclass = "(char \<times> char) list"

definition in_class :: "cclass \<Rightarrow> char \<Rightarrow> bool" where
  "in_class cls c =
     list_ex (\<lambda>(lo, hi). (of_char lo :: nat) \<le> of_char c \<and> (of_char c :: nat) \<le> of_char hi) cls"

datatype regex =
    Eps
  | Cls cclass
  | Seq regex regex
  | Alt regex regex
  | Star regex

definition Plus :: "regex \<Rightarrow> regex" where
  "Plus r = Seq r (Star r)"

definition Opt :: "regex \<Rightarrow> regex" where
  "Opt r = Alt r Eps"

definition Lit :: "char \<Rightarrow> regex" where
  "Lit c = Cls [(c, c)]"

fun nullable :: "regex \<Rightarrow> bool" where
  "nullable Eps = True"
| "nullable (Cls cls) = False"
| "nullable (Seq r s) = (nullable r \<and> nullable s)"
| "nullable (Alt r s) = (nullable r \<or> nullable s)"
| "nullable (Star r) = True"

text \<open>\<open>Cls []\<close> matches nothing.\<close>

fun deriv :: "char \<Rightarrow> regex \<Rightarrow> regex" where
  "deriv c Eps = Cls []"
| "deriv c (Cls cls) = (if in_class cls c then Eps else Cls [])"
| "deriv c (Seq r s) =
     (if nullable r then Alt (Seq (deriv c r) s) (deriv c s) else Seq (deriv c r) s)"
| "deriv c (Alt r s) = Alt (deriv c r) (deriv c s)"
| "deriv c (Star r) = Seq (deriv c r) (Star r)"

fun regex_test :: "regex \<Rightarrow> string \<Rightarrow> bool" where
  "regex_test r [] = nullable r"
| "regex_test r (c # cs) = regex_test (deriv c r) cs"

text \<open>
  The set of strings a regular expression denotes. \<open>regex_test\<close> decides membership
  (lemma \<open>regex_test_lang\<close> below).
\<close>

fun lang :: "regex \<Rightarrow> string set" where
  "lang Eps = {[]}"
| "lang (Cls cls) = {[c] |c. in_class cls c}"
| "lang (Seq r s) = {u @ v |u v. u \<in> lang r \<and> v \<in> lang s}"
| "lang (Alt r s) = lang r \<union> lang s"
| "lang (Star r) = {concat ws |ws. set ws \<subseteq> lang r}"

text \<open>The lowercase letters and the digits, listed.\<close>

definition lower_alnum :: "char \<Rightarrow> bool" where
  "lower_alnum c = (c \<in> set ''abcdefghijklmnopqrstuvwxyz0123456789'')"

subsection \<open>Semantic versions\<close>

text \<open>\<open>/^\d+\.\d+\.\d+(-[a-z0-9-.]+)?$/\<close>\<close>

definition digit_class :: cclass where
  "digit_class = [(CHR ''0'', CHR ''9'')]"

definition prerelease_class :: cclass where
  "prerelease_class =
     [(CHR ''a'', CHR ''z''), (CHR ''0'', CHR ''9''), (CHR ''-'', CHR ''-''), (CHR ''.'', CHR ''.'')]"

definition semverRegex :: regex where
  "semverRegex =
     Seq (Plus (Cls digit_class))
    (Seq (Lit CHR ''.'')
    (Seq (Plus (Cls digit_class))
    (Seq (Lit CHR ''.'')
    (Seq (Plus (Cls digit_class))
         (Opt (Seq (Lit CHR ''-'') (Plus (Cls prerelease_class))))))))"

definition isValidSemver :: "string \<Rightarrow> bool" where
  "isValidSemver version = regex_test semverRegex version"

text \<open>
  \<open>compareSemver\<close>: the loop \<open>for (let i = 0; i < 3; i++)\<close> is \<open>compare_from\<close>, started at
  \<open>0\<close>. \<open>v.split('-')[0]\<close> is the head of a list that is never empty.
\<close>

function compare_from :: "jsnum list \<Rightarrow> jsnum list \<Rightarrow> nat \<Rightarrow> int" where
  "compare_from parts1 parts2 i =
     (if i < 3 then
        (if js_gt (at_js parts1 i) (at_js parts2 i) then 1
         else if js_lt (at_js parts1 i) (at_js parts2 i) then - 1
         else compare_from parts1 parts2 (i + 1))
      else 0)"
  by pat_completeness auto
termination
  by (relation "measure (\<lambda>(parts1, parts2, i). 3 - i)") auto

declare compare_from.simps [simp del]

definition compareSemver :: "string \<Rightarrow> string \<Rightarrow> int" where
  "compareSemver v1 v2 =
     (let parts1 = map Number (split_js CHR ''.'' (hd (split_js CHR ''-'' v1)));
          parts2 = map Number (split_js CHR ''.'' (hd (split_js CHR ''-'' v2)))
      in compare_from parts1 parts2 0)"










text \<open>
  \<open>matchesSemverRange\<close>: the wildcard branch's loop over \<open>rangeParts\<close> is
  \<open>wildcard_from\<close>, started at \<open>0\<close>; \<open>versionParts[i]\<close> may be \<open>undefined\<close>, which differs
  from every string.
\<close>

function wildcard_from :: "string list \<Rightarrow> string list \<Rightarrow> nat \<Rightarrow> bool" where
  "wildcard_from rangeParts versionParts i =
     (if i < length rangeParts then
        (if rangeParts ! i \<noteq> ''x'' \<and> Some (rangeParts ! i) \<noteq> at_js versionParts i then False
         else wildcard_from rangeParts versionParts (i + 1))
      else True)"
  by pat_completeness auto
termination
  by (relation "measure (\<lambda>(rangeParts, versionParts, i). length rangeParts - i)") auto

declare wildcard_from.simps [simp del]

definition matchesSemverRange :: "string \<Rightarrow> string \<Rightarrow> bool" where
  "matchesSemverRange version rng =
     (if rng = version then True
      else if CHR ''x'' \<in> set rng then
        wildcard_from (split_js CHR ''.'' rng) (split_js CHR ''.'' version) 0
      else if prefix ''^'' rng then
        (let baseVersion = drop 1 rng;
             comparison = compareSemver version baseVersion
         in if comparison < 0 then False
            else let baseMajor = parseInt (hd (split_js CHR ''.'' baseVersion));
                     versionMajor = parseInt (hd (split_js CHR ''.'' version))
                 in strict_eq (Some versionMajor) (Some baseMajor))
      else if prefix ''~'' rng then
        (let baseVersion = drop 1 rng;
             comparison = compareSemver version baseVersion
         in if comparison < 0 then False
            else let baseParts = map Number (split_js CHR ''.'' baseVersion);
                     versionParts = map Number (split_js CHR ''.'' version)
                 in strict_eq (at_js versionParts 0) (at_js baseParts 0)
                    \<and> strict_eq (at_js versionParts 1) (at_js baseParts 1))
      else if prefix ''>='' rng then
        (let baseVersion = drop 2 rng in 0 \<le> compareSemver version baseVersion)
      else False)"


definition same_number :: "nat \<Rightarrow> nat \<Rightarrow> bool" where
  "same_number x y = (to_double x = to_double y)"


text \<open>
  \<open>isCompatibleVersion\<close>: \<open>maxAppVersion && ...\<close> skips the range test when the field is
  absent or the empty string.
\<close>

definition isCompatibleVersion :: "string \<Rightarrow> ExtensionManifest \<Rightarrow> bool" where
  "isCompatibleVersion appVersion m =
     (if compareSemver appVersion (minAppVersion (requirements m)) < 0 then False
      else (case maxAppVersion (requirements m) of
              None \<Rightarrow> True
            | Some mx \<Rightarrow>
                if mx \<noteq> [] \<and> \<not> matchesSemverRange appVersion mx then False else True))"

subsection \<open>Extension identifiers\<close>

text \<open>\<open>/^[a-z0-9][a-z0-9-]*\.[a-z0-9][a-z0-9-]*(\.[a-z0-9][a-z0-9-]*)+$/\<close>\<close>

definition id_head_class :: cclass where
  "id_head_class = [(CHR ''a'', CHR ''z''), (CHR ''0'', CHR ''9'')]"

definition id_tail_class :: cclass where
  "id_tail_class = [(CHR ''a'', CHR ''z''), (CHR ''0'', CHR ''9''), (CHR ''-'', CHR ''-'')]"

definition id_segment :: regex where
  "id_segment = Seq (Cls id_head_class) (Star (Cls id_tail_class))"

definition idRegex :: regex where
  "idRegex =
     Seq id_segment
    (Seq (Lit CHR ''.'')
    (Seq id_segment
         (Plus (Seq (Lit CHR ''.'') id_segment))))"

definition isValidExtensionId :: "string \<Rightarrow> bool" where
  "isValidExtensionId ident = regex_test idRegex ident"

subsection \<open>Permissions and the full validation of a manifest\<close>

definition RESTRICTED_PERMISSIONS :: "Permission list" where
  "RESTRICTED_PERMISSIONS = [CodeExecution, NativeModule, FileSystemWrite]"

record PermissionValidation =
  pv_valid :: bool
  needsUserConsent :: bool
  restrictedPermissions :: "Permission list"

definition validatePermissions :: "ExtensionManifest \<Rightarrow> PermissionValidation" where
  "validatePermissions m =
     (let restricted = filter (\<lambda>perm. perm \<in> set RESTRICTED_PERMISSIONS)
                         (required (permissions m))
      in \<lparr>pv_valid = (length restricted = 0),
          needsUserConsent = (0 < length (required (permissions m))),
          restrictedPermissions = restricted\<rparr>)"

record ValidationResult =
  valid :: bool
  errors :: "string list"
  warnings :: "string list"

text \<open>
  The JSON schema of the manifest and the schema compiler (Ajv) are not part of the
  sources. The compiled validator is a parameter: applied to a manifest it says whether
  the manifest conforms, and leaves its list of errors (\<open>null\<close>, here \<open>None\<close>, or a list of
  path and message).
\<close>

record ErrorObject =
  instancePath :: string
  message :: string

type_synonym schema_validator = "ExtensionManifest \<Rightarrow> bool \<times> ErrorObject list option"

definition validateManifestStructure ::
  "schema_validator \<Rightarrow> ExtensionManifest \<Rightarrow> ValidationResult" where
  "validateManifestStructure validateManifestSchema m =
     (case validateManifestSchema m of
        (ok, errs) \<Rightarrow>
          (case errs of
             Some es \<Rightarrow>
               if \<not> ok then
                 \<lparr>valid = False,
                  errors = map (\<lambda>err. instancePath err @ '' '' @ message err) es,
                  warnings = []\<rparr>
               else \<lparr>valid = True, errors = [], warnings = []\<rparr>
           | None \<Rightarrow> \<lparr>valid = True, errors = [], warnings = []\<rparr>))"

definition validateManifest ::
  "schema_validator \<Rightarrow> ExtensionManifest \<Rightarrow> string \<Rightarrow> ValidationResult" where
  "validateManifest validateManifestSchema m appVersion =
     (let schemaValidation = validateManifestStructure validateManifestSchema m;
          errors0 = (if \<not> valid schemaValidation then errors schemaValidation else []);
          errors1 = (if \<not> isValidExtensionId (meta_id (metadata m))
                     then errors0 @ [''Invalid extension ID format''] else errors0);
          errors2 = (if \<not> isValidSemver (meta_version (metadata m))
                     then errors1 @ [''Invalid version format''] else errors1);
          errors3 = (if \<not> isCompatibleVersion appVersion m
                     then errors2 @ [''Incompatible app version. Requires ''
                                       @ minAppVersion (requirements m) @ ''+'']
                     else errors2);
          permValidation = validatePermissions m;
          warnings0 = (if \<not> pv_valid permValidation
                       then [''Extension requests restricted permissions: ''
                               @ join_js '', '' (map permission_name
                                                  (restrictedPermissions permValidation))]
                       else [])
      in \<lparr>valid = (length errors3 = 0), errors = errors3, warnings = warnings0\<rparr>)"

subsection \<open>ExtensionRegistry: registration and dependencies\<close>

record DependencyCheck =
  satisfied :: bool
  missing :: "Dependency list"

definition appVersion :: string where
  "appVersion = ''1.0.0''"

definition validateExtension :: "schema_validator \<Rightarrow> ExtensionManifest \<Rightarrow> ValidationResult" where
  "validateExtension validateManifestSchema m = validateManifest validateManifestSchema m appVersion"

definition checkDependencies :: "registry \<Rightarrow> ExtensionManifest \<Rightarrow> DependencyCheck" where
  "checkDependencies extensions m =
     (let missing0 =
            filter (\<lambda>dep. case extensions (dep_id dep) of
                             None \<Rightarrow> True
                           | Some installed \<Rightarrow>
                               compareSemver (meta_version (metadata (manifest installed)))
                                 (dep_version dep) < 0)
              (filter (\<lambda>dep. \<not> dep_optional dep) (dependencies (requirements m)))
      in \<lparr>satisfied = (length missing0 = 0), missing = missing0\<rparr>)"

definition registerExtension ::
  "schema_validator \<Rightarrow> registry \<Rightarrow> Extension \<Rightarrow> js_error option \<times> registry" where
  "registerExtension validateManifestSchema extensions extension =
     (let validation = validateExtension validateManifestSchema (manifest extension)
      in if \<not> valid validation then
           (Some (JsError (''Invalid extension: '' @ join_js '', '' (errors validation))),
            extensions)
         else
           let depCheck = checkDependencies extensions (manifest extension)
           in if \<not> satisfied depCheck then
                (Some (JsError (''Missing dependencies: ''
                         @ join_js '', '' (map dep_id (missing depCheck)))),
                 extensions)
              else (None, extensions(ext_id extension \<mapsto> extension)))"

text \<open>
  The same manifest with one of its dependencies marked optional, and that change in an
  extension.
\<close>

definition mark_optional :: "Dependency \<Rightarrow> ExtensionManifest \<Rightarrow> ExtensionManifest" where
  "mark_optional d m =
     m\<lparr>requirements := (requirements m)\<lparr>dependencies :=
         map (\<lambda>x. if x = d then x\<lparr>dep_optional := True\<rparr> else x)
           (dependencies (requirements m))\<rparr>\<rparr>"

definition with_optional :: "Dependency \<Rightarrow> Extension \<Rightarrow> Extension" where
  "with_optional d extension = extension\<lparr>manifest := mark_optional d (manifest extension)\<rparr>"

text \<open>Examples: a schema validator that accepts every manifest, and extensions.\<close>

definition accept_all :: schema_validator where
  "accept_all m = (True, None)"

definition core_fonts :: Dependency where
  "core_fonts = \<lparr>dep_id = ''com.lousa.core-fonts'', dep_version = ''^1.0.0'', dep_optional = False\<rparr>"

definition fonts_user :: Extension where
  "fonts_user =
     (demo_extension Installed)\<lparr>manifest :=
        demo_manifest\<lparr>requirements :=
          \<lparr>minAppVersion = ''1.0.0'', maxAppVersion = None, dependencies = [core_fonts]\<rparr>\<rparr>\<rparr>"

definition bad_id_fonts_user :: Extension where
  "bad_id_fonts_user =
     fonts_user\<lparr>manifest :=
        (manifest fonts_user)\<lparr>metadata := (metadata demo_manifest)\<lparr>meta_id := ''example''\<rparr>\<rparr>\<rparr>"

definition restricted_manifest :: ExtensionManifest where
  "restricted_manifest =
     demo_manifest\<lparr>permissions :=
       \<lparr>required = [CodeExecution, DocumentRead, FileSystemWrite], optional = [],
        restrictedApis = []\<rparr>\<rparr>"

section \<open>Cloud resource manager (CloudResourceManager.ts)\<close>

subsection \<open>State, options and the environment of a call\<close>

text \<open>
  A \<open>Blob\<close> is its bytes and its MIME type. The manager owns two maps keyed by URL: the
  cache and the state of the circuit breaker. Times are milliseconds since the epoch;
  \<open>failures\<close> is a counter that starts at \<open>0\<close> and is only ever incremented.
\<close>

record Blob =
  blob_bytes :: "8 word list"
  blob_type :: string

record CacheEntry =
  data :: Blob
  timestamp :: int

record CircuitBreakerState =
  failures :: nat
  lastFailure :: int
  resetTimeout :: int

record manager =
  cache :: "string \<rightharpoonup> CacheEntry"
  circuitBreakerState :: "string \<rightharpoonup> CircuitBreakerState"

datatype Fallback = FallbackPlaceholder | FallbackCache | FallbackNone

text \<open>An option that the caller leaves out is \<open>None\<close> and takes its default.\<close>

record LoadResourceOptions =
  opt_cache :: "bool option"
  opt_cacheTTL :: "int option"
  opt_fallback :: "Fallback option"

text \<open>
  What a call meets outside the manager: the values \<open>Date.now()\<close> returns when the cache is
  looked up, when the circuit is checked and when the fetch has ended (the reading
  \<open>addToCache\<close> or \<open>incrementCircuitBreaker\<close> takes), and what the network would do if
  asked. Every failure inside the \<open>try\<close> block (a rejected fetch, the ten seconds'
  timeout, a status that is not \<open>ok\<close>, a body that cannot be read) takes the same \<open>catch\<close>
  branch, so all are \<open>FetchFailed\<close>.
\<close>

record readings =
  at_cache :: int
  at_circuit :: int
  at_done :: int

datatype fetch_outcome = Fetched Blob | FetchFailed

subsection \<open>The private methods\<close>

definition getFromCache :: "manager \<Rightarrow> string \<Rightarrow> int \<Rightarrow> int \<Rightarrow> Blob option \<times> manager" where
  "getFromCache mgr url ttl now =
     (case cache mgr url of
        None \<Rightarrow> (None, mgr)
      | Some cached \<Rightarrow>
          let age = now - timestamp cached
          in if age > ttl then (None, mgr\<lparr>cache := (cache mgr)(url := None)\<rparr>)
             else (Some (data cached), mgr))"

definition addToCache :: "manager \<Rightarrow> string \<Rightarrow> Blob \<Rightarrow> int \<Rightarrow> manager" where
  "addToCache mgr url blob now =
     mgr\<lparr>cache := (cache mgr)(url \<mapsto> \<lparr>data = blob, timestamp = now\<rparr>)\<rparr>"

definition getPlaceholder :: Blob where
  "getPlaceholder =
     \<lparr>blob_bytes =
        [0x89, 0x50, 0x4e, 0x47, 0x0d, 0x0a, 0x1a, 0x0a, 0x00, 0x00, 0x00, 0x0d,
         0x49, 0x48, 0x44, 0x52, 0x00, 0x00, 0x00, 0x01, 0x00, 0x00, 0x00, 0x01,
         0x08, 0x06, 0x00, 0x00, 0x00, 0x1f, 0x15, 0xc4, 0x89, 0x00, 0x00, 0x00,
         0x0a, 0x49, 0x44, 0x41, 0x54, 0x78, 0x9c, 0x63, 0x00, 0x01, 0x00, 0x00,
         0x05, 0x00, 0x01, 0x0d, 0x0a, 0x2d, 0xb4, 0x00, 0x00, 0x00, 0x00, 0x49,
         0x45, 0x4e, 0x44, 0xae, 0x42, 0x60, 0x82],
      blob_type = ''image/png''\<rparr>"

text \<open>
  \<open>handleFallback\<close> returns a blob or throws. With the policy \<open>cache\<close> and no entry it
  falls through both tests and throws.
\<close>

definition handleFallback :: "manager \<Rightarrow> string \<Rightarrow> Fallback \<Rightarrow> js_error + Blob" where
  "handleFallback mgr url fallback =
     (case (if fallback = FallbackCache then cache mgr url else None) of
        Some cached \<Rightarrow> Inr (data cached)
      | None \<Rightarrow>
          if fallback = FallbackPlaceholder then Inr getPlaceholder
          else Inl (JsError (''Failed to load resource: '' @ url)))"

definition isCircuitOpen :: "manager \<Rightarrow> string \<Rightarrow> int \<Rightarrow> bool \<times> manager" where
  "isCircuitOpen mgr url now =
     (case circuitBreakerState mgr url of
        None \<Rightarrow> (False, mgr)
      | Some state \<Rightarrow>
          let threshold = 5
          in if now - lastFailure state > resetTimeout state then
               (False, mgr\<lparr>circuitBreakerState := (circuitBreakerState mgr)(url := None)\<rparr>)
             else (failures state \<ge> threshold, mgr))"

definition incrementCircuitBreaker :: "manager \<Rightarrow> string \<Rightarrow> int \<Rightarrow> manager" where
  "incrementCircuitBreaker mgr url now =
     (let state = (case circuitBreakerState mgr url of
                     None \<Rightarrow> \<lparr>failures = 0, lastFailure = 0, resetTimeout = 60000\<rparr>
                   | Some s \<Rightarrow> s);
          state' = state\<lparr>failures := failures state + 1, lastFailure := now\<rparr>
      in mgr\<lparr>circuitBreakerState := (circuitBreakerState mgr)(url \<mapsto> state')\<rparr>)"

definition resetCircuitBreaker :: "manager \<Rightarrow> string \<Rightarrow> manager" where
  "resetCircuitBreaker mgr url =
     mgr\<lparr>circuitBreakerState := (circuitBreakerState mgr)(url := None)\<rparr>"

subsection \<open>loadResource\<close>

text \<open>
  The result of a call: the blob returned or the error thrown, the manager as the call
  leaves it, and whether the call asked the network.
\<close>

record load_result =
  returned :: "js_error + Blob"
  manager_after :: manager
  asked_network :: bool

definition loadResource ::
  "manager \<Rightarrow> string \<Rightarrow> LoadResourceOptions \<Rightarrow> readings \<Rightarrow> fetch_outcome \<Rightarrow> load_result" where
  "loadResource mgr url options rd network =
     (let use_cache = (case opt_cache options of None \<Rightarrow> True | Some b \<Rightarrow> b);
          cacheTTL = (case opt_cacheTTL options of None \<Rightarrow> 86400 * 1000 | Some t \<Rightarrow> t);
          fallback = (case opt_fallback options of None \<Rightarrow> FallbackCache | Some f \<Rightarrow> f);
          (cached, mgr1) = (if use_cache then getFromCache mgr url cacheTTL (at_cache rd)
                            else (None, mgr))
      in case cached of
           Some blob \<Rightarrow> \<lparr>returned = Inr blob, manager_after = mgr1, asked_network = False\<rparr>
         | None \<Rightarrow>
             let (is_open, mgr2) = isCircuitOpen mgr1 url (at_circuit rd)
             in if is_open then
                  \<lparr>returned = handleFallback mgr2 url fallback, manager_after = mgr2,
                   asked_network = False\<rparr>
                else
                  (case network of
                     Fetched blob \<Rightarrow>
                       let mgr3 = (if use_cache then addToCache mgr2 url blob (at_done rd)
                                   else mgr2);
                           mgr4 = resetCircuitBreaker mgr3 url
                       in \<lparr>returned = Inr blob, manager_after = mgr4, asked_network = True\<rparr>
                   | FetchFailed \<Rightarrow>
                       let mgr3 = incrementCircuitBreaker mgr2 url (at_done rd)
                       in \<lparr>returned = handleFallback mgr3 url fallback, manager_after = mgr3,
                           asked_network = True\<rparr>))"

subsection \<open>Sequences of calls\<close>

record call =
  c_url :: string
  c_options :: LoadResourceOptions
  c_readings :: readings
  c_network :: fetch_outcome

definition perform :: "manager \<Rightarrow> call \<Rightarrow> load_result" where
  "perform mgr c = loadResource mgr (c_url c) (c_options c) (c_readings c) (c_network c)"

fun run :: "manager \<Rightarrow> call list \<Rightarrow> manager" where
  "run mgr [] = mgr"
| "run mgr (c # cs) = run (manager_after (perform mgr c)) cs"

fun run_log :: "manager \<Rightarrow> call list \<Rightarrow> bool list" where
  "run_log mgr [] = []"
| "run_log mgr (c # cs) =
     asked_network (perform mgr c) # run_log (manager_after (perform mgr c)) cs"

text \<open>
  A streak of failed fetches for one URL: every call of the list is for that URL, asks the
  network and fails, and every call but the first checks the circuit no later than the
  reset timeout of one minute after the failure before it was recorded.
\<close>

fun failing_streak :: "manager \<Rightarrow> string \<Rightarrow> call list \<Rightarrow> bool" where
  "failing_streak mgr url [] = True"
| "failing_streak mgr url (c # cs) =
     (c_url c = url \<and> c_network c = FetchFailed \<and> asked_network (perform mgr c)
      \<and> (case cs of [] \<Rightarrow> True
          | c' # _ \<Rightarrow> at_circuit (c_readings c') - at_done (c_readings c) \<le> 60000)
      \<and> failing_streak (manager_after (perform mgr c)) url cs)"

text \<open>
  Every state of the circuit breaker that the manager creates has the reset timeout of one
  minute; \<open>default_timeout\<close> says so of the entry for one URL, if there is one. A call is
  served from the cache when caching is on and the entry is not older than the TTL.
\<close>

definition default_timeout :: "manager \<Rightarrow> string \<Rightarrow> bool" where
  "default_timeout mgr url =
     (case circuitBreakerState mgr url of None \<Rightarrow> True | Some s \<Rightarrow> resetTimeout s = 60000)"

definition cache_hit :: "manager \<Rightarrow> call \<Rightarrow> bool" where
  "cache_hit mgr c =
     ((case opt_cache (c_options c) of None \<Rightarrow> True | Some b \<Rightarrow> b)
      \<and> fst (getFromCache mgr (c_url c)
                (case opt_cacheTTL (c_options c) of None \<Rightarrow> 86400 * 1000 | Some t \<Rightarrow> t)
                (at_cache (c_readings c))) \<noteq> None)"

definition fallback_of :: "call \<Rightarrow> Fallback" where
  "fallback_of c = (case opt_fallback (c_options c) of None \<Rightarrow> FallbackCache | Some f \<Rightarrow> f)"

definition empty_manager :: manager where
  "empty_manager = \<lparr>cache = Map.empty, circuitBreakerState = Map.empty\<rparr>"

text \<open>Examples: a failing call that skips the cache, at a given time, and a payload.\<close>

definition failing_call :: "int \<Rightarrow> call" where
  "failing_call t =
     \<lparr>c_url = ''https://cdn.lousa.digital/a.png'',
      c_options = \<lparr>opt_cache = Some False, opt_cacheTTL = None, opt_fallback = Some FallbackCache\<rparr>,
      c_readings = \<lparr>at_cache = t, at_circuit = t, at_done = t + 100\<rparr>,
      c_network = FetchFailed\<rparr>"

definition some_blob :: Blob where
  "some_blob = \<lparr>blob_bytes = [1, 2, 3], blob_type = ''image/png''\<rparr>"

definition quick_failures :: "call list" where
  "quick_failures = map failing_call [0, 1000, 2000, 3000, 4000]"

definition spaced_failures :: "call list" where
  "spaced_failures = map failing_call [0, 70000, 140000, 210000, 280000]"

definition succeeding_call :: "int \<Rightarrow> call" where
  "succeeding_call t = (failing_call t)\<lparr>c_network := Fetched some_blob\<rparr>"

section \<open>Packages and manifest integrity (PackageBuilder, ManifestGenerator, crypto)\<close>

subsection \<open>JSON documents\<close>

text \<open>
  The packaging service only serialises a manifest and reads
  \<open>integrity.checksum.manifest\<close> from it, and what it extracts from an archive is the
  result of \<open>JSON.parse\<close>, so a manifest is a JSON document here. An object is the list of
  its members in the order in which \<open>JSON.stringify\<close> writes them (the order of
  insertion, for keys that are not numbers), with distinct keys; numbers are integers.
  \<open>stringify\<close> is \<open>JSON.stringify\<close> with one argument (no indentation).
\<close>

datatype json =
    JNull
  | JBool bool
  | JNum int
  | JStr string
  | JArr "json list"
  | JObj "(string \<times> json) list"

definition hex_digit :: "nat \<Rightarrow> char" where
  "hex_digit n = ''0123456789abcdef'' ! (n mod 16)"

definition escape_char :: "char \<Rightarrow> string" where
  "escape_char c =
     (let n = (of_char c :: nat)
      in if n = 34 then [char_of (92 :: nat), char_of (34 :: nat)]
         else if n = 92 then [char_of (92 :: nat), char_of (92 :: nat)]
         else if n = 8 then char_of (92 :: nat) # ''b''
         else if n = 9 then char_of (92 :: nat) # ''t''
         else if n = 10 then char_of (92 :: nat) # ''n''
         else if n = 12 then char_of (92 :: nat) # ''f''
         else if n = 13 then char_of (92 :: nat) # ''r''
         else if n < 32 then char_of (92 :: nat) # ''u00'' @ [hex_digit (n div 16), hex_digit n]
         else [c])"

definition quote :: "string \<Rightarrow> string" where
  "quote s = char_of (34 :: nat) # concat (map escape_char s) @ [char_of (34 :: nat)]"

fun nat_digits :: "nat \<Rightarrow> string" where
  "nat_digits n =
     (if n < 10 then [char_of (48 + n)] else nat_digits (n div 10) @ [char_of (48 + n mod 10)])"

declare nat_digits.simps [simp del]

definition int_text :: "int \<Rightarrow> string" where
  "int_text i = (if i < 0 then CHR ''-'' # nat_digits (nat (- i)) else nat_digits (nat i))"

fun stringify :: "json \<Rightarrow> string" where
  "stringify JNull = ''null''"
| "stringify (JBool b) = (if b then ''true'' else ''false'')"
| "stringify (JNum i) = int_text i"
| "stringify (JStr s) = quote s"
| "stringify (JArr xs) = ''['' @ join_js '','' (map stringify xs) @ '']''"
| "stringify (JObj kvs) =
     ''{'' @ join_js '','' (map (\<lambda>kv. quote (fst kv) @ '':'' @ stringify (snd kv)) kvs) @ ''}''"

text \<open>
  Reading a property: of an object, its member; of any other value no property that the
  code asks for exists (\<open>undefined\<close>, here \<open>None\<close>). \<open>get_opt\<close> is the optional chaining
  \<open>?.\<close> after a value that may be \<open>undefined\<close>. Assigning a property keeps the place of a
  member that exists and appends one that does not; \<open>delete\<close> removes it.
\<close>

definition get :: "json \<Rightarrow> string \<Rightarrow> json option" where
  "get j k = (case j of JObj kvs \<Rightarrow> map_of kvs k | _ \<Rightarrow> None)"

definition get_opt :: "json option \<Rightarrow> string \<Rightarrow> json option" where
  "get_opt j k = (case j of None \<Rightarrow> None | Some JNull \<Rightarrow> None | Some v \<Rightarrow> get v k)"

fun assign :: "(string \<times> json) list \<Rightarrow> string \<Rightarrow> json \<Rightarrow> (string \<times> json) list" where
  "assign [] k v = [(k, v)]"
| "assign (kv # kvs) k v = (if fst kv = k then (k, v) # kvs else kv # assign kvs k v)"

definition delete_key :: "(string \<times> json) list \<Rightarrow> string \<Rightarrow> (string \<times> json) list" where
  "delete_key kvs k = filter (\<lambda>kv. fst kv \<noteq> k) kvs"

subsection \<open>Checksums (crypto.ts)\<close>

text \<open>
  The digest itself is computed by the platform's \<open>crypto\<close> module, which is not part of
  the sources. It is a parameter: \<open>createHash alg text\<close> is the hexadecimal digest of the
  text under the named algorithm.
\<close>

type_synonym hasher = "string \<Rightarrow> string \<Rightarrow> string"

datatype ChecksumAlgorithm = Sha256 | Sha512

definition computeSHA256 :: "hasher \<Rightarrow> string \<Rightarrow> string" where
  "computeSHA256 createHash text = createHash ''sha256'' text"

definition computeSHA512 :: "hasher \<Rightarrow> string \<Rightarrow> string" where
  "computeSHA512 createHash text = createHash ''sha512'' text"

definition computeChecksum :: "hasher \<Rightarrow> string \<Rightarrow> ChecksumAlgorithm \<Rightarrow> string" where
  "computeChecksum createHash text algorithm =
     (if algorithm = Sha512 then computeSHA512 createHash text
      else computeSHA256 createHash text)"

subsection \<open>Stamping a manifest (ManifestGenerator.generateIntegrity)\<close>

text \<open>
  \<open>generateIntegrity\<close> copies the manifest, deletes \<open>integrity\<close> from the copy and hashes
  its serialisation. \<open>createManifest\<close> and \<open>updateManifest\<close> both end by assigning the
  result to the manifest's \<open>integrity\<close>; that last step is \<open>stamp\<close>.
\<close>

definition without_integrity :: "json \<Rightarrow> json" where
  "without_integrity m = (case m of JObj kvs \<Rightarrow> JObj (delete_key kvs ''integrity'') | _ \<Rightarrow> m)"

definition generateIntegrity :: "hasher \<Rightarrow> json \<Rightarrow> json" where
  "generateIntegrity createHash m =
     (let manifestCopy = without_integrity m;
          manifestJson = stringify manifestCopy;
          checksum = computeChecksum createHash manifestJson Sha256
      in JObj [(''checksum'', JObj [(''algorithm'', JStr ''sha256''),
                                   (''manifest'', JStr checksum)])])"

definition stamp :: "hasher \<Rightarrow> json \<Rightarrow> json" where
  "stamp createHash m =
     (case m of
        JObj kvs \<Rightarrow> JObj (assign kvs ''integrity'' (generateIntegrity createHash m))
      | _ \<Rightarrow> m)"

text \<open>
  The integrity invariant of the data model: the stored checksum is the digest of the
  manifest serialised without its \<open>integrity\<close> member.
\<close>

definition stored_checksum :: "json \<Rightarrow> json option" where
  "stored_checksum m = get_opt (get_opt (get m ''integrity'') ''checksum'') ''manifest''"

definition integrity_invariant :: "hasher \<Rightarrow> json \<Rightarrow> bool" where
  "integrity_invariant createHash m =
     (stored_checksum m
        = Some (JStr (computeChecksum createHash (stringify (without_integrity m)) Sha256)))"

subsection \<open>Archives (PackageBuilder)\<close>

text \<open>
  An archive is the list of its members by path, in the order they were added. A member
  is a folder, a file written as the serialisation of a JSON document (which
  \<open>JSON.parse\<close> reads back as that document), or a file of text that is not JSON, on which
  \<open>JSON.parse\<close> throws a \<open>SyntaxError\<close>. Compression is not modelled, nor are the folder
  members that the archive library adds for the directories of a path: \<open>zip.file(name)\<close>
  never returns a folder. The messages of errors thrown by the language itself differ
  between engines; the model gives each one fixed text.
\<close>

datatype zip_entry = Folder | JsonFile json | TextFile string

type_synonym zip = "(string \<times> zip_entry) list"

fun zip_put :: "zip \<Rightarrow> string \<Rightarrow> zip_entry \<Rightarrow> zip" where
  "zip_put [] name e = [(name, e)]"
| "zip_put (ne # z) name e = (if fst ne = name then (name, e) # z else ne # zip_put z name e)"

text \<open>\<open>zip.file(name)\<close>: the file of that name, or \<open>null\<close> when there is none.\<close>

definition zip_file :: "zip \<Rightarrow> string \<Rightarrow> zip_entry option" where
  "zip_file z name = (case map_of z name of Some Folder \<Rightarrow> None | r \<Rightarrow> r)"

record LessonTemplate =
  template_id :: string
  template_name :: string
  template_description :: string
  template_category :: "string option"
  template_tags :: "string list option"
  template_targetAudience :: "string list option"
  template_pages :: json
  template_resources :: json

text \<open>A member whose value is \<open>undefined\<close> is left out by \<open>JSON.stringify\<close>.\<close>

definition optional_member :: "string \<Rightarrow> json option \<Rightarrow> (string \<times> json) list" where
  "optional_member k v = (case v of None \<Rightarrow> [] | Some j \<Rightarrow> [(k, j)])"

definition template_json :: "LessonTemplate \<Rightarrow> json" where
  "template_json t =
     JObj [(''id'', JStr (template_id t)),
           (''metadata'',
            JObj ([(''name'', JStr (template_name t)),
                   (''description'', JStr (template_description t))]
                  @ optional_member ''category'' (map_option JStr (template_category t))
                  @ optional_member ''tags'' (map_option (JArr \<circ> map JStr) (template_tags t))
                  @ optional_member ''targetAudience''
                      (map_option (JArr \<circ> map JStr) (template_targetAudience t)))),
           (''pages'', template_pages t),
           (''resources'', template_resources t)]"

record PackageScript =
  script_name :: string
  script_content :: string

record PackageSchema =
  schema_name :: string
  schema_content :: json

record PackageDocumentation =
  readme :: "string option"
  changelog :: "string option"
  licence_text :: "string option"

record PackageData =
  pkg_manifest :: json
  pkg_templates :: "LessonTemplate list option"
  pkg_scripts :: "PackageScript list option"
  pkg_schemas :: "PackageSchema list option"
  pkg_documentation :: "PackageDocumentation option"

text \<open>
  \<open>buildPackage\<close>. With templates it reads \<open>data.manifest.metadata.version\<close> for the index,
  which throws a \<open>TypeError\<close> when the manifest is \<open>null\<close> or has no \<open>metadata\<close>. A text
  of the documentation that is absent or empty is not written.
\<close>

definition templates_index :: "json option \<Rightarrow> LessonTemplate list \<Rightarrow> json" where
  "templates_index version ts =
     JObj (optional_member ''version'' version
           @ [(''templates'',
               JArr (map (\<lambda>t. JObj [(''id'', JStr (template_id t)),
                                     (''name'', JStr (template_name t)),
                                     (''description'', JStr (template_description t)),
                                     (''file'', JStr (template_id t @ ''.json''))]) ts))])"

definition put_text :: "zip \<Rightarrow> string \<Rightarrow> string option \<Rightarrow> zip" where
  "put_text z name text =
     (case text of None \<Rightarrow> z | Some s \<Rightarrow> if s = [] then z else zip_put z name (TextFile s))"

definition add_templates :: "zip \<Rightarrow> json \<Rightarrow> LessonTemplate list \<Rightarrow> js_error + zip" where
  "add_templates z m ts =
     (if m = JNull then
        Inl (JsError ''Cannot read properties of null (reading 'metadata')'')
      else case get m ''metadata'' of
             None \<Rightarrow> Inl (JsError ''Cannot read properties of undefined (reading 'version')'')
           | Some JNull \<Rightarrow> Inl (JsError ''Cannot read properties of null (reading 'version')'')
           | Some md \<Rightarrow>
               Inr (foldl (\<lambda>z t. zip_put z (''templates/'' @ template_id t @ ''.json'')
                                   (JsonFile (template_json t)))
                      (zip_put (zip_put z ''templates/'' Folder) ''templates/index.json''
                         (JsonFile (templates_index (get md ''version'') ts)))
                      ts))"

definition add_scripts :: "zip \<Rightarrow> PackageScript list \<Rightarrow> zip" where
  "add_scripts z ss =
     foldl (\<lambda>z s. zip_put z (''scripts/'' @ script_name s) (TextFile (script_content s)))
       (zip_put z ''scripts/'' Folder) ss"

definition add_schemas :: "zip \<Rightarrow> PackageSchema list \<Rightarrow> zip" where
  "add_schemas z ss =
     foldl (\<lambda>z s. zip_put z (''schemas/'' @ schema_name s) (JsonFile (schema_content s)))
       (zip_put z ''schemas/'' Folder) ss"

definition add_documentation :: "zip \<Rightarrow> PackageDocumentation \<Rightarrow> zip" where
  "add_documentation z doc =
     put_text (put_text (put_text z ''README.md'' (readme doc))
                 ''CHANGELOG.md'' (changelog doc))
       ''LICENSE'' (licence_text doc)"

definition buildPackage :: "PackageData \<Rightarrow> js_error + zip" where
  "buildPackage d =
     (let z0 = zip_put [] ''manifest.json'' (JsonFile (pkg_manifest d));
          with_templates =
            (case pkg_templates d of
               None \<Rightarrow> Inr z0
             | Some ts \<Rightarrow>
                 if length ts > 0 then add_templates z0 (pkg_manifest d) ts else Inr z0)
      in case with_templates of
           Inl e \<Rightarrow> Inl e
         | Inr z1 \<Rightarrow>
             let z2 = (case pkg_scripts d of
                         None \<Rightarrow> z1
                       | Some ss \<Rightarrow> if length ss > 0 then add_scripts z1 ss else z1);
                 z3 = (case pkg_schemas d of
                         None \<Rightarrow> z2
                       | Some ss \<Rightarrow> if length ss > 0 then add_schemas z2 ss else z2);
                 z4 = (case pkg_documentation d of
                         None \<Rightarrow> z3
                       | Some doc \<Rightarrow> add_documentation z3 doc)
             in Inr z4)"

text \<open>
  \<open>validatePackage\<close> reads only the manifest of what \<open>extractPackage\<close> returns, and
  \<open>extractPackage\<close> reads the manifest first. The model of extraction returns the manifest or
  the error thrown on the way: a missing \<open>manifest.json\<close>, a manifest, a template index or a
  template that is not JSON, an index whose \<open>templates\<close> cannot be iterated, or a reference
  that is \<open>null\<close>. Scripts and documentation are read as text, which cannot fail.

  \<open>js_string\<close> is the text that a template literal gives for a value (\<open>undefined\<close> is
  \<open>None\<close>); \<open>iterate\<close> is what \<open>for ... of\<close> runs through: the elements of an array, the
  characters of a string, and a \<open>TypeError\<close> (here \<open>None\<close>) for anything else.
\<close>

fun js_string :: "json \<Rightarrow> string" where
  "js_string JNull = ''null''"
| "js_string (JBool b) = (if b then ''true'' else ''false'')"
| "js_string (JNum i) = int_text i"
| "js_string (JStr s) = s"
| "js_string (JArr xs) =
     join_js '','' (map (\<lambda>x. if x = JNull then [] else js_string x) xs)"
| "js_string (JObj kvs) = ''[object Object]''"

definition template_literal :: "json option \<Rightarrow> string" where
  "template_literal v = (case v of None \<Rightarrow> ''undefined'' | Some j \<Rightarrow> js_string j)"

definition iterate :: "json option \<Rightarrow> json list option" where
  "iterate v =
     (case v of
        Some (JArr xs) \<Rightarrow> Some xs
      | Some (JStr s) \<Rightarrow> Some (map (\<lambda>c. JStr [c]) s)
      | _ \<Rightarrow> None)"

fun read_refs :: "zip \<Rightarrow> json list \<Rightarrow> js_error option" where
  "read_refs z [] = None"
| "read_refs z (templateRef # refs) =
     (if templateRef = JNull then
        Some (JsError ''Cannot read properties of null (reading 'file')'')
      else case zip_file z (''templates/'' @ template_literal (get templateRef ''file'')) of
             Some (TextFile s) \<Rightarrow> Some (JsError ''Unexpected token in JSON'')
           | _ \<Rightarrow> read_refs z refs)"

definition read_templates :: "zip \<Rightarrow> js_error option" where
  "read_templates z =
     (case zip_file z ''templates/index.json'' of
        None \<Rightarrow> None
      | Some Folder \<Rightarrow> None
      | Some (TextFile s) \<Rightarrow> Some (JsError ''Unexpected token in JSON'')
      | Some (JsonFile index) \<Rightarrow>
          if index = JNull then
            Some (JsError ''Cannot read properties of null (reading 'templates')'')
          else case iterate (get index ''templates'') of
                 None \<Rightarrow> Some (JsError ''index.templates is not iterable'')
               | Some refs \<Rightarrow> read_refs z refs)"

definition extractPackage :: "zip \<Rightarrow> js_error + json" where
  "extractPackage z =
     (case zip_file z ''manifest.json'' of
        None \<Rightarrow> Inl (JsError ''Invalid package: manifest.json not found'')
      | Some Folder \<Rightarrow> Inl (JsError ''Invalid package: manifest.json not found'')
      | Some (TextFile s) \<Rightarrow> Inl (JsError ''Unexpected token in JSON'')
      | Some (JsonFile m) \<Rightarrow>
          (case read_templates z of Some e \<Rightarrow> Inl e | None \<Rightarrow> Inr m))"

record PackageValidation =
  pkg_valid :: bool
  pkg_errors :: "string list"

text \<open>
  \<open>validatePackage\<close> catches what extraction throws, and the \<open>TypeError\<close> of
  \<open>data.manifest.integrity\<close> on a manifest that is \<open>null\<close>. It serialises the manifest as
  extracted, with its \<open>integrity\<close> member, and compares the digest of that text with the
  stored checksum.
\<close>

definition validatePackage :: "hasher \<Rightarrow> zip \<Rightarrow> PackageValidation" where
  "validatePackage createHash z =
     (case extractPackage z of
        Inl (JsError msg) \<Rightarrow>
          \<lparr>pkg_valid = False, pkg_errors = [''Failed to validate package: '' @ msg]\<rparr>
      | Inr m \<Rightarrow>
          let manifestJson = stringify m;
              computedChecksum = computeChecksum createHash manifestJson Sha256
          in if m = JNull then
               \<lparr>pkg_valid = False,
                pkg_errors = [''Failed to validate package: ''
                                @ ''Cannot read properties of null (reading 'integrity')'']\<rparr>
             else
               let errs = (if stored_checksum m \<noteq> Some (JStr computedChecksum)
                           then [''Manifest checksum mismatch - possible tampering'']
                           else [])
               in \<lparr>pkg_valid = (length errs = 0), pkg_errors = errs\<rparr>)"

text \<open>
  A manifest as \<open>createManifest\<close> leaves it (here with two of its members), a digest
  without collisions for running the code (the text itself), and the package of the
  stamped manifest alone.
\<close>

definition mathpack_json :: json where
  "mathpack_json =
     JObj [(''metadata'', JObj [(''id'', JStr ''com.acme.mathpack''),
                                (''version'', JStr ''1.0.0'')]),
           (''type'', JStr ''template-pack'')]"

definition plain_digest :: hasher where
  "plain_digest algorithm text = algorithm @ '':'' @ text"

definition stamped_package :: "hasher \<Rightarrow> PackageData" where
  "stamped_package createHash =
     \<lparr>pkg_manifest = stamp createHash mathpack_json, pkg_templates = None,
      pkg_scripts = None, pkg_schemas = None, pkg_documentation = None\<rparr>"

section \<open>Strings and regular expressions\<close>

subsection \<open>The matcher decides the language\<close>

lemma nullable_lang: "nullable r \<longleftrightarrow> [] \<in> lang r"
proof (induction r)
  case (Star r)
  have "set ([]::string list) \<subseteq> lang r \<and> (\<forall>xs\<in>set ([]::string list). xs = [])" by simp
  then have "\<exists>ws. (\<forall>xs\<in>set ws. xs = []) \<and> set ws \<subseteq> lang r" by blast
  then show ?case by simp
qed auto

lemma concat_Cons_split:
  assumes "concat ws = c # w" and "set ws \<subseteq> A"
  shows "\<exists>u ws'. c # u \<in> A \<and> set ws' \<subseteq> A \<and> w = u @ concat ws'"
  using assms
proof (induction ws)
  case Nil
  then show ?case by simp
next
  case (Cons x ws)
  show ?case
  proof (cases x)
    case Nil
    with Cons show ?thesis by simp
  next
    case (Cons y ys)
    with Cons.prems have "y = c" "w = ys @ concat ws" "c # ys \<in> A" "set ws \<subseteq> A"
      by auto
    then show ?thesis by blast
  qed
qed

lemma deriv_lang: "w \<in> lang (deriv c r) \<longleftrightarrow> c # w \<in> lang r"
proof (induction r arbitrary: w)
  case Eps
  then show ?case by (simp add: in_class_def)
next
  case (Cls cls)
  then show ?case by (auto simp: in_class_def)
next
  case (Seq r s)
  show ?case
  proof
    assume "w \<in> lang (deriv c (Seq r s))"
    then consider (a) u v where "w = u @ v" "u \<in> lang (deriv c r)" "v \<in> lang s"
      | (b) "nullable r" "w \<in> lang (deriv c s)"
      by (auto split: if_splits)
    then show "c # w \<in> lang (Seq r s)"
    proof cases
      case a
      then have "c # u \<in> lang r" using Seq.IH(1) by simp
      with a have "c # w = (c # u) @ v \<and> c # u \<in> lang r \<and> v \<in> lang s" by simp
      then show ?thesis by (simp del: append_Cons) blast
    next
      case b
      then have "[] \<in> lang r" "c # w \<in> lang s"
        using Seq.IH(2) nullable_lang by auto
      then have "c # w = [] @ (c # w) \<and> [] \<in> lang r \<and> c # w \<in> lang s" by simp
      then show ?thesis by (simp del: append_Nil) blast
    qed
  next
    assume "c # w \<in> lang (Seq r s)"
    then obtain u v where uv: "c # w = u @ v" "u \<in> lang r" "v \<in> lang s"
      by auto
    show "w \<in> lang (deriv c (Seq r s))"
    proof (cases u)
      case Nil
      with uv have "nullable r" "w \<in> lang (deriv c s)"
        using nullable_lang Seq.IH(2) by auto
      then show ?thesis by simp
    next
      case (Cons a u')
      with uv have "a = c" "w = u' @ v" "u' \<in> lang (deriv c r)"
        using Seq.IH(1) by auto
      with uv(3) have "w \<in> lang (Seq (deriv c r) s)" by auto
      then show ?thesis by simp
    qed
  qed
next
  case (Alt r s)
  then show ?case by simp
next
  case (Star r)
  show ?case
  proof
    assume "w \<in> lang (deriv c (Star r))"
    then obtain u ws where h: "w = u @ concat ws" "u \<in> lang (deriv c r)" "set ws \<subseteq> lang r"
      by auto
    then have "c # u \<in> lang r" using Star.IH by simp
    with h have "c # w = concat ((c # u) # ws) \<and> set ((c # u) # ws) \<subseteq> lang r"
      by simp
    then show "c # w \<in> lang (Star r)"
      by (simp del: concat.simps set_simps) blast
  next
    assume "c # w \<in> lang (Star r)"
    then obtain ws where "concat ws = c # w" "set ws \<subseteq> lang r"
      by auto
    from concat_Cons_split[OF this] obtain u ws' where
      "c # u \<in> lang r" "set ws' \<subseteq> lang r" "w = u @ concat ws'" by blast
    then have "u \<in> lang (deriv c r)" "concat ws' \<in> lang (Star r)" "w = u @ concat ws'"
      using Star.IH by auto
    then show "w \<in> lang (deriv c (Star r))" by auto
  qed
qed

lemma regex_test_lang: "regex_test r s \<longleftrightarrow> s \<in> lang r"
  by (induction s arbitrary: r) (simp_all add: nullable_lang deriv_lang)

subsection \<open>Splitting and joining\<close>

lemma char_of_code: "(of_char c :: nat) = n \<Longrightarrow> c = char_of n"
  by auto

lemma lower_codes: "list_all (\<lambda>n. lower_alnum (char_of n)) [97..<123]"
  by code_simp

lemma digit_codes: "list_all (\<lambda>n. lower_alnum (char_of n)) [48..<58]"
  by code_simp

lemma head_class_iff: "in_class id_head_class c \<longleftrightarrow> lower_alnum c"
proof
  assume "in_class id_head_class c"
  then have "(of_char c::nat) \<in> {97..<123} \<or> (of_char c::nat) \<in> {48..<58}"
    by (auto simp: in_class_def id_head_class_def)
  then have "(of_char c::nat) \<in> set [97..<123] \<or> (of_char c::nat) \<in> set [48..<58]"
    by (simp only: set_upt)
  then have "lower_alnum (char_of (of_char c :: nat))"
    using lower_codes digit_codes unfolding list_all_iff by blast
  then show "lower_alnum c" by simp
next
  assume "lower_alnum c"
  then show "in_class id_head_class c"
    unfolding lower_alnum_def in_class_def id_head_class_def by auto
qed

lemma hyphen_code: "(of_char c :: nat) = 45 \<longleftrightarrow> c = CHR ''-''"
  using char_of_code[of c 45] by (auto simp: char_of_def bit_Suc_0_iff)

lemma split_js_nonempty: "split_js c s \<noteq> []"
  by (induction s) (auto split: list.splits)

lemma split_js_no_sep: "c \<notin> set s \<Longrightarrow> split_js c s = [s]"
  by (induction s) auto

lemma split_js_append:
  "c \<notin> set x \<Longrightarrow> split_js c (x @ c # rest) = x # split_js c rest"
  by (induction x) (auto split: list.splits simp: split_js_nonempty)

lemma join_js_Cons_head: "join_js sep ((x # y) # ys) = x # join_js sep (y # ys)"
  by (cases ys) auto

lemma join_split: "join_js [c] (split_js c s) = s"
proof (induction s)
  case Nil
  then show ?case by simp
next
  case (Cons x xs)
  obtain y ys where sp: "split_js c xs = y # ys"
    using split_js_nonempty[of c xs] by (cases "split_js c xs") auto
  with Cons show ?case
    by (auto simp: join_js_Cons_head)
qed

lemma join_dotted: "join_js [c] (x # xs) = x @ concat (map ((#) c) xs)"
  by (induction xs arbitrary: x) auto

lemma split_join:
  "\<forall>y\<in>set (x # xs). c \<notin> set y \<Longrightarrow> split_js c (join_js [c] (x # xs)) = x # xs"
proof (induction xs arbitrary: x)
  case Nil
  then show ?case by (simp add: split_js_no_sep)
next
  case (Cons y ys)
  have nx: "c \<notin> set x" using Cons.prems by simp
  have "split_js c (join_js [c] (x # y # ys)) = split_js c (x @ c # join_js [c] (y # ys))"
    by simp
  also have "\<dots> = x # split_js c (join_js [c] (y # ys))"
    using nx by (rule split_js_append)
  also have "split_js c (join_js [c] (y # ys)) = y # ys"
    using Cons.IH[of y] Cons.prems by simp
  finally show ?case .
qed

lemma lang_Lit: "lang (Lit c) = {[c]}"
  by (auto simp: Lit_def in_class_def)

lemma concat_singletons: "concat (map (\<lambda>c. [c]) s) = s"
  by (induction s) auto

lemma lang_Star_Cls: "lang (Star (Cls cls)) = {s. list_all (in_class cls) s}"
proof (intro set_eqI iffI)
  fix s assume "s \<in> lang (Star (Cls cls))"
  then obtain ws where ws: "s = concat ws" "set ws \<subseteq> {[c] |c. in_class cls c}"
    by auto
  have "set ws \<subseteq> {[c] |c. in_class cls c} \<Longrightarrow> list_all (in_class cls) (concat ws)"
    by (induction ws) auto
  with ws show "s \<in> {s. list_all (in_class cls) s}" by simp
next
  fix s assume "s \<in> {s. list_all (in_class cls) s}"
  then have "set (map (\<lambda>c. [c]) s) \<subseteq> lang (Cls cls)"
    by (auto simp: list_all_iff)
  moreover have "s = concat (map (\<lambda>c. [c]) s)" by (simp add: concat_singletons)
  ultimately show "s \<in> lang (Star (Cls cls))"
    unfolding lang.simps by blast
qed

lemma lang_Seq_Cls:
  "lang (Seq (Cls cls) r) = {c # s |c s. in_class cls c \<and> s \<in> lang r}"
proof (intro set_eqI iffI)
  fix w assume "w \<in> lang (Seq (Cls cls) r)"
  then show "w \<in> {c # s |c s. in_class cls c \<and> s \<in> lang r}" by auto
next
  fix w assume "w \<in> {c # s |c s. in_class cls c \<and> s \<in> lang r}"
  then obtain c s where "w = c # s" "in_class cls c" "s \<in> lang r" by blast
  then have "w = [c] @ s \<and> [c] \<in> lang (Cls cls) \<and> s \<in> lang r" by simp
  then show "w \<in> lang (Seq (Cls cls) r)"
    unfolding lang.simps(3) by blast
qed


lemma lang_Star_prefixed:
  "lang (Star (Seq (Lit c) r)) = {concat (map ((#) c) segs) |segs. set segs \<subseteq> lang r}"
proof (intro set_eqI iffI)
  fix w assume "w \<in> lang (Star (Seq (Lit c) r))"
  then obtain ws where ws: "w = concat ws" "set ws \<subseteq> {c # s |s. s \<in> lang r}"
    by (auto simp: lang_Lit)
  have "set ws \<subseteq> {c # s |s. s \<in> lang r} \<Longrightarrow> \<exists>segs. ws = map ((#) c) segs \<and> set segs \<subseteq> lang r"
  proof (induction ws)
    case Nil
    then show ?case by simp
  next
    case (Cons a ws)
    then obtain segs s where "ws = map ((#) c) segs" "set segs \<subseteq> lang r" "a = c # s" "s \<in> lang r"
      by auto
    then have "a # ws = map ((#) c) (s # segs) \<and> set (s # segs) \<subseteq> lang r" by simp
    then show ?case by (rule exI[of _ "s # segs"])
  qed
  with ws show "w \<in> {concat (map ((#) c) segs) |segs. set segs \<subseteq> lang r}" by blast
next
  fix w assume "w \<in> {concat (map ((#) c) segs) |segs. set segs \<subseteq> lang r}"
  then obtain segs where "w = concat (map ((#) c) segs)" "set segs \<subseteq> lang r" by blast
  then have "w = concat (map ((#) c) segs) \<and> set (map ((#) c) segs) \<subseteq> lang (Seq (Lit c) r)"
    by (auto simp: lang_Lit)
  then show "w \<in> lang (Star (Seq (Lit c) r))"
    unfolding lang.simps(5) by blast
qed

lemma lang_id_segment:
  "lang id_segment = {c # cs |c cs. in_class id_head_class c \<and> list_all (in_class id_tail_class) cs}"
  unfolding id_segment_def by (simp add: lang_Seq_Cls lang_Star_Cls del: lang.simps)

lemma lang_SeqI: "u \<in> lang r \<Longrightarrow> v \<in> lang s \<Longrightarrow> u @ v \<in> lang (Seq r s)"
  by auto

lemma lang_SeqE:
  assumes "w \<in> lang (Seq r s)"
  obtains u v where "w = u @ v" "u \<in> lang r" "v \<in> lang s"
  using assms by auto

lemma lang_idRegex:
  "lang idRegex = {join_js ''.'' (a # b # d # segs) |a b d segs. set (a # b # d # segs) \<subseteq> lang id_segment}"
proof (intro set_eqI iffI)
  fix w assume "w \<in> lang idRegex"
  then obtain a r1 where 1: "w = a @ r1" "a \<in> lang id_segment"
      "r1 \<in> lang (Seq (Lit CHR ''.'') (Seq id_segment (Plus (Seq (Lit CHR ''.'') id_segment))))"
    unfolding idRegex_def by (blast elim: lang_SeqE)
  from 1(3) obtain p1 r2 where 2: "r1 = p1 @ r2" "p1 \<in> lang (Lit CHR ''.'')"
      "r2 \<in> lang (Seq id_segment (Plus (Seq (Lit CHR ''.'') id_segment)))"
    by (blast elim: lang_SeqE)
  from 2(3) obtain b r3 where 3: "r2 = b @ r3" "b \<in> lang id_segment"
      "r3 \<in> lang (Seq (Seq (Lit CHR ''.'') id_segment) (Star (Seq (Lit CHR ''.'') id_segment)))"
    unfolding Plus_def by (blast elim: lang_SeqE)
  from 3(3) obtain r4 r5 where 4: "r3 = r4 @ r5" "r4 \<in> lang (Seq (Lit CHR ''.'') id_segment)"
      "r5 \<in> lang (Star (Seq (Lit CHR ''.'') id_segment))"
    by (blast elim: lang_SeqE)
  from 4(2) obtain p2 d where 5: "r4 = p2 @ d" "p2 \<in> lang (Lit CHR ''.'')" "d \<in> lang id_segment"
    by (blast elim: lang_SeqE)
  from 4(3) obtain segs where 6: "r5 = concat (map ((#) CHR ''.'') segs)" "set segs \<subseteq> lang id_segment"
    unfolding lang_Star_prefixed by blast
  have "w = join_js ''.'' (a # b # d # segs)"
    using 1(1) 2(1,2) 3(1) 4(1) 5(1,2) 6(1) by (simp add: lang_Lit join_dotted)
  moreover have "set (a # b # d # segs) \<subseteq> lang id_segment"
    using 1(2) 3(2) 5(3) 6(2) by simp
  ultimately show "w \<in> {join_js ''.'' (a # b # d # segs) |a b d segs.
                          set (a # b # d # segs) \<subseteq> lang id_segment}"
    by blast
next
  fix w assume "w \<in> {join_js ''.'' (a # b # d # segs) |a b d segs.
                       set (a # b # d # segs) \<subseteq> lang id_segment}"
  then obtain a b d segs where w: "w = join_js ''.'' (a # b # d # segs)"
      and m: "a \<in> lang id_segment" "b \<in> lang id_segment" "d \<in> lang id_segment"
             "set segs \<subseteq> lang id_segment"
    by auto
  have dot: "''.'' \<in> lang (Lit CHR ''.'')" by (simp add: lang_Lit)
  have "concat (map ((#) CHR ''.'') segs) \<in> lang (Star (Seq (Lit CHR ''.'') id_segment))"
    unfolding lang_Star_prefixed using m(4) by blast
  then have "(''.'' @ d) @ concat (map ((#) CHR ''.'') segs)
               \<in> lang (Plus (Seq (Lit CHR ''.'') id_segment))"
    unfolding Plus_def using dot m(3) by (intro lang_SeqI)
  then have "a @ ''.'' @ b @ (''.'' @ d) @ concat (map ((#) CHR ''.'') segs) \<in> lang idRegex"
    unfolding idRegex_def using dot m(1,2) by (intro lang_SeqI)
  then show "w \<in> lang idRegex"
    using w by (simp add: join_dotted)
qed

section \<open>Extension identifiers\<close>

lemma tail_class_iff: "in_class id_tail_class c \<longleftrightarrow> lower_alnum c \<or> c = CHR ''-''"
proof -
  have "in_class id_tail_class c \<longleftrightarrow> in_class id_head_class c \<or> c = CHR ''-''"
    using hyphen_code[of c] by (auto simp: in_class_def id_tail_class_def id_head_class_def)
  then show ?thesis by (simp add: head_class_iff)
qed

lemma id_segment_iff:
  "seg \<in> lang id_segment \<longleftrightarrow>
     seg \<noteq> [] \<and> lower_alnum (hd seg) \<and> (\<forall>c\<in>set seg. lower_alnum c \<or> c = CHR ''-'')"
proof (cases seg)
  case Nil
  then show ?thesis by (simp add: lang_id_segment)
next
  case (Cons c cs)
  then show ?thesis
    by (auto simp: lang_id_segment head_class_iff tail_class_iff list_all_iff)
qed

lemma id_segment_no_dot:
  assumes "seg \<in> lang id_segment"
  shows "CHR ''.'' \<notin> set seg"
proof -
  have "\<not> (lower_alnum CHR ''.'' \<or> CHR ''.'' = CHR ''-'')"
    by (simp add: lower_alnum_def)
  moreover have "\<forall>c\<in>set seg. lower_alnum c \<or> c = CHR ''-''"
    using assms by (simp add: id_segment_iff)
  ultimately show ?thesis by blast
qed

lemma isValidExtensionId_iff_lang:
  "isValidExtensionId ident \<longleftrightarrow>
     3 \<le> length (split_js CHR ''.'' ident)
     \<and> set (split_js CHR ''.'' ident) \<subseteq> lang id_segment"
proof
  assume "isValidExtensionId ident"
  then have "ident \<in> lang idRegex"
    by (simp add: isValidExtensionId_def regex_test_lang)
  then obtain a b d segs where j: "ident = join_js ''.'' (a # b # d # segs)"
      and m: "set (a # b # d # segs) \<subseteq> lang id_segment"
    unfolding lang_idRegex by blast
  from m have "\<forall>y\<in>set (a # b # d # segs). CHR ''.'' \<notin> set y"
    using id_segment_no_dot by blast
  then have "split_js CHR ''.'' ident = a # b # d # segs"
    unfolding j by (rule split_join)
  with m show "3 \<le> length (split_js CHR ''.'' ident)
     \<and> set (split_js CHR ''.'' ident) \<subseteq> lang id_segment"
    by simp
next
  assume h: "3 \<le> length (split_js CHR ''.'' ident)
     \<and> set (split_js CHR ''.'' ident) \<subseteq> lang id_segment"
  then obtain a b d segs where sp: "split_js CHR ''.'' ident = a # b # d # segs"
    by (auto simp: numeral_3_eq_3 Suc_le_length_iff)
  have "ident = join_js ''.'' (split_js CHR ''.'' ident)"
    by (simp add: join_split)
  with sp h have "ident = join_js ''.'' (a # b # d # segs) \<and> set (a # b # d # segs) \<subseteq> lang id_segment"
    by simp
  then have "ident \<in> lang idRegex"
    unfolding lang_idRegex by blast
  then show "isValidExtensionId ident"
    by (simp add: isValidExtensionId_def regex_test_lang)
qed

text \<open>
  Claim C2, amended: \<open>isValidExtensionId\<close> accepts exactly the identifiers of at least
  three segments separated by dots, where every segment is non-empty, starts with a
  lowercase letter or a digit and consists of lowercase letters, digits and hyphens. So
  \<open>com.example.pack\<close> is accepted and \<open>Com.Example.Test\<close> and \<open>com..example.test\<close> are
  rejected.
\<close>

theorem C2_isValidExtensionId_three_segments:
  "(isValidExtensionId ident \<longleftrightarrow>
      3 \<le> length (split_js CHR ''.'' ident)
      \<and> (\<forall>seg\<in>set (split_js CHR ''.'' ident).
            seg \<noteq> [] \<and> lower_alnum (hd seg) \<and> (\<forall>c\<in>set seg. lower_alnum c \<or> c = CHR ''-'')))
   \<and> isValidExtensionId ''com.example.pack''
   \<and> \<not> isValidExtensionId ''Com.Example.Test''
   \<and> \<not> isValidExtensionId ''com..example.test''"
proof -
  have ev: "isValidExtensionId ''com.example.pack''"
     "\<not> isValidExtensionId ''Com.Example.Test''"
     "\<not> isValidExtensionId ''com..example.test''"
    by (simp_all add: isValidExtensionId_def idRegex_def id_segment_def Plus_def Lit_def
          in_class_def id_head_class_def id_tail_class_def)
  have "set (split_js CHR ''.'' ident) \<subseteq> lang id_segment \<longleftrightarrow>
        (\<forall>seg\<in>set (split_js CHR ''.'' ident).
            seg \<noteq> [] \<and> lower_alnum (hd seg) \<and> (\<forall>c\<in>set seg. lower_alnum c \<or> c = CHR ''-''))"
    using id_segment_iff by blast
  then have main: "isValidExtensionId ident \<longleftrightarrow>
      3 \<le> length (split_js CHR ''.'' ident)
      \<and> (\<forall>seg\<in>set (split_js CHR ''.'' ident).
            seg \<noteq> [] \<and> lower_alnum (hd seg) \<and> (\<forall>c\<in>set seg. lower_alnum c \<or> c = CHR ''-''))"
    by (simp only: isValidExtensionId_iff_lang)
  show ?thesis
    using ev main by (intro conjI)
qed

text \<open>
  Claim C2, as stated, fails: \<open>com.example\<close> has two segments of lowercase letters and
  is rejected (the pattern asks for three), and \<open>com.-example.pack\<close> has three segments
  of lowercase letters and hyphens and is rejected (a segment may not start with a hyphen).
\<close>

theorem C2_two_segments_rejected:
  "\<not> isValidExtensionId ''com.example''
   \<and> length (split_js CHR ''.'' ''com.example'') = 2
   \<and> list_all (\<lambda>seg. seg \<noteq> [] \<and> list_all (\<lambda>c. lower_alnum c \<or> c = CHR ''-'') seg)
        (split_js CHR ''.'' ''com.example'')
   \<and> \<not> isValidExtensionId ''com.-example.pack''
   \<and> list_all (\<lambda>seg. seg \<noteq> [] \<and> list_all (\<lambda>c. lower_alnum c \<or> c = CHR ''-'') seg)
        (split_js CHR ''.'' ''com.-example.pack'')"
  by (simp add: isValidExtensionId_def idRegex_def id_segment_def Plus_def Lit_def
        in_class_def id_head_class_def id_tail_class_def lower_alnum_def)

theorem C2_isValidExtensionId_three_segments_witness:
  "isValidExtensionId ''org.lousa.digital.templates''
   \<and> length (split_js CHR ''.'' ''org.lousa.digital.templates'') = 4"
  using C2_isValidExtensionId_three_segments [of "''org.lousa.digital.templates''"]
  by (simp add: lower_alnum_def)

section \<open>The registry's state machine\<close>

lemma enable_registered:
  assumes "extensions extensionId = Some extension"
  shows "\<exists>r. enable extensions extensionId now = (None, r)
           \<and> status_of r extensionId = Some Enabled
           \<and> dom r = dom extensions \<and> (\<forall>k. k \<noteq> extensionId \<longrightarrow> r k = extensions k)"
proof -
  from assms have "insert extensionId (dom extensions) = dom extensions"
    by (simp add: insert_absorb domI)
  with assms show ?thesis
    by (simp add: enable_def status_of_def)
qed

lemma disable_registered:
  assumes "extensions extensionId = Some extension"
  shows "\<exists>r. disable extensions extensionId = (None, r)
           \<and> status_of r extensionId = Some Disabled
           \<and> dom r = dom extensions \<and> (\<forall>k. k \<noteq> extensionId \<longrightarrow> r k = extensions k)"
proof -
  from assms have "insert extensionId (dom extensions) = dom extensions"
    by (simp add: insert_absorb domI)
  with assms show ?thesis
    by (simp add: disable_def status_of_def)
qed

lemma uninstall_registered:
  assumes "extensions extensionId = Some extension"
  shows "\<exists>r. uninstall extensions extensionId = (None, r) \<and> r extensionId = None"
  using assms by (simp add: uninstall_def disable_def)

text \<open>
  Claim C3, as stated, fails: \<open>enable\<close> on an extension in state \<open>error\<close> moves it to
  \<open>enabled\<close>, and \<open>disable\<close> on an extension in state \<open>degraded\<close> moves it to
  \<open>disabled\<close>. Neither state is absorbing.
\<close>

theorem C3_error_degraded_not_absorbing:
  "status_of (snd (enable [''com.acme.mathpack'' \<mapsto> demo_extension Error]
                     ''com.acme.mathpack'' 2000)) ''com.acme.mathpack'' = Some Enabled
   \<and> status_of (snd (disable [''com.acme.mathpack'' \<mapsto> demo_extension Degraded]
                     ''com.acme.mathpack'')) ''com.acme.mathpack'' = Some Disabled"
  by (simp add: enable_def disable_def status_of_def demo_extension_def)

text \<open>
  Claim C3, amended: \<open>enable\<close> and \<open>disable\<close> have no guard on \<open>error\<close> or
  \<open>degraded\<close>. For every registered extension, whatever its status (\<open>error\<close> and
  \<open>degraded\<close> included), \<open>enable\<close> succeeds and leaves it \<open>enabled\<close>, \<open>disable\<close>
  succeeds and leaves it \<open>disabled\<close>, both keep the entry and every other entry, and
  only \<open>uninstall\<close> removes the entry.
\<close>

theorem C3_enable_disable_any_status:
  assumes "extensions extensionId = Some extension"
  shows "(\<exists>r. enable extensions extensionId now = (None, r)
             \<and> status_of r extensionId = Some Enabled
             \<and> dom r = dom extensions \<and> (\<forall>k. k \<noteq> extensionId \<longrightarrow> r k = extensions k))
       \<and> (\<exists>r. disable extensions extensionId = (None, r)
             \<and> status_of r extensionId = Some Disabled
             \<and> dom r = dom extensions \<and> (\<forall>k. k \<noteq> extensionId \<longrightarrow> r k = extensions k))
       \<and> (\<exists>r. uninstall extensions extensionId = (None, r) \<and> r extensionId = None)"
  using assms
  by (intro conjI enable_registered[of extensions extensionId extension now]
        disable_registered[of extensions extensionId extension]
        uninstall_registered[of extensions extensionId extension])

theorem C3_enable_disable_any_status_witness:
  "status_of (snd (enable [''a.b.c'' \<mapsto> demo_extension Error] ''a.b.c'' 5)) ''a.b.c''
     = Some Enabled
   \<and> status_of (snd (disable [''a.b.c'' \<mapsto> demo_extension Error] ''a.b.c'')) ''a.b.c''
     = Some Disabled
   \<and> snd (uninstall [''a.b.c'' \<mapsto> demo_extension Error] ''a.b.c'') ''a.b.c'' = None"
proof -
  have h: "[''a.b.c'' \<mapsto> demo_extension Error] ''a.b.c'' = Some (demo_extension Error)"
    by simp
  note C3_enable_disable_any_status
         [of "[''a.b.c'' \<mapsto> demo_extension Error]" "''a.b.c''" "demo_extension Error" 5,
          OF h]
  then show ?thesis
    by (elim conjE exE) simp
qed

section \<open>Semantic versions\<close>

subsection \<open>Comparison\<close>

lemma js_gt_asym: "js_gt a b \<Longrightarrow> \<not> js_gt b a"
  unfolding js_gt_def
  by (cases "case a of None \<Rightarrow> NaN | Some x \<Rightarrow> x"; cases "case b of None \<Rightarrow> NaN | Some y \<Rightarrow> y") auto

lemma js_gt_irrefl: "\<not> js_gt a a"
  using js_gt_asym by blast


lemma compare_from_same: "p = q \<Longrightarrow> compare_from p q i = 0"
proof (induction p q i rule: compare_from.induct)
  case (1 parts1 parts2 i)
  then show ?case
    by (simp add: compare_from.simps[of parts2 parts2 i] js_lt_def js_gt_irrefl)
qed

lemma compare_from_refl: "compare_from p p i = 0"
  by (simp add: compare_from_same)



lemma compareSemver_refl: "compareSemver a a = 0"
  unfolding compareSemver_def Let_def by (rule compare_from_refl)



















lemma to_double_safe: "n < 9007199254740992 \<Longrightarrow> to_double n = Num (int n)"
  by (simp add: to_double_def)




lemmas semver_eval =
  isValidSemver_def semverRegex_def digit_class_def prerelease_class_def Plus_def Lit_def Opt_def
  in_class_def


subsection \<open>Range matching\<close>
















lemma same_number_safe:
  "x < 9007199254740992 \<Longrightarrow> y < 9007199254740992 \<Longrightarrow> same_number x y = (x = y)"
  by (simp add: same_number_def to_double_safe)















section \<open>Validation of a manifest\<close>

lemma validateManifest_valid_iff:
  "valid (validateManifest sv m av) = (errors (validateManifest sv m av) = [])"
  by (simp add: validateManifest_def Let_def)

lemma validateManifest_passes:
  assumes "valid (validateManifestStructure sv m)"
    and "isValidExtensionId (meta_id (metadata m))"
    and "isValidSemver (meta_version (metadata m))"
    and "isCompatibleVersion av m"
  shows "validateManifest sv m av =
           \<lparr>valid = True, errors = [],
            warnings =
              (if filter (\<lambda>perm. perm \<in> set RESTRICTED_PERMISSIONS) (required (permissions m)) = []
               then []
               else [''Extension requests restricted permissions: ''
                       @ join_js '', '' (map permission_name
                           (filter (\<lambda>perm. perm \<in> set RESTRICTED_PERMISSIONS)
                              (required (permissions m))))])\<rparr>"
  using assms by (simp add: validateManifest_def validatePermissions_def Let_def)

text \<open>
  Claim C9: the \<open>valid\<close> flag of \<open>validateManifest\<close> is true exactly when the list of
  errors is empty, and a manifest that passes the schema layer and the three semantic
  checks is valid whatever permissions it requires: the required permissions that are
  restricted are reported in one warning that lists them, and in no error.
\<close>

theorem C9_restricted_permissions_only_warn:
  "valid (validateManifest sv m av) = (errors (validateManifest sv m av) = [])
   \<and> (valid (validateManifestStructure sv m) \<and> isValidExtensionId (meta_id (metadata m))
        \<and> isValidSemver (meta_version (metadata m)) \<and> isCompatibleVersion av m \<longrightarrow>
        validateManifest sv m av =
           \<lparr>valid = True, errors = [],
            warnings =
              (if filter (\<lambda>perm. perm \<in> set RESTRICTED_PERMISSIONS) (required (permissions m)) = []
               then []
               else [''Extension requests restricted permissions: ''
                       @ join_js '', '' (map permission_name
                           (filter (\<lambda>perm. perm \<in> set RESTRICTED_PERMISSIONS)
                              (required (permissions m))))])\<rparr>)"
  using validateManifest_valid_iff[of sv m av] validateManifest_passes[of sv m av]
  by blast

lemmas id_eval =
  isValidExtensionId_def idRegex_def id_segment_def Plus_def Lit_def in_class_def
  id_head_class_def id_tail_class_def

lemma demo_checks:
  "isValidExtensionId ''com.acme.mathpack''" "isValidSemver ''1.0.0''"
  "compareSemver ''1.0.0'' ''1.0.0'' = 0"
  by (simp_all add: id_eval semver_eval compareSemver_refl)

theorem C9_restricted_permissions_only_warn_witness:
  "validateManifest accept_all restricted_manifest ''1.0.0'' =
     \<lparr>valid = True, errors = [],
      warnings = [''Extension requests restricted permissions: code-execution, file-system-write'']\<rparr>"
proof -
  have 1: "valid (validateManifestStructure accept_all restricted_manifest)"
    by (simp add: validateManifestStructure_def accept_all_def)
  have 2: "isValidExtensionId (meta_id (metadata restricted_manifest))"
    "isValidSemver (meta_version (metadata restricted_manifest))"
    "isCompatibleVersion ''1.0.0'' restricted_manifest"
    using demo_checks
    by (simp_all add: restricted_manifest_def demo_manifest_def isCompatibleVersion_def)
  show ?thesis
    using C9_restricted_permissions_only_warn[of accept_all restricted_manifest "''1.0.0''"] 1 2
    by (simp add: restricted_manifest_def demo_manifest_def RESTRICTED_PERMISSIONS_def)
qed

section \<open>Registration and dependencies\<close>

lemma sublist_join_js: "x \<in> set xs \<Longrightarrow> sublist x (join_js sep xs)"
proof (induction sep xs rule: join_js.induct)
  case (1 sep)
  then show ?case by simp
next
  case (2 sep y)
  then show ?case by simp
next
  case (3 sep y z zs)
  show ?case
  proof (cases "x = y")
    case True
    then show ?thesis by simp
  next
    case False
    then have "sublist x (join_js sep (z # zs))" using 3 by simp
    then have "sublist x ((y @ sep) @ join_js sep (z # zs))"
      unfolding sublist_append by blast
    then show ?thesis by simp
  qed
qed

lemma registerExtension_cases:
  "registerExtension sv ex e =
     (if \<not> valid (validateExtension sv (manifest e)) then
        (Some (JsError (''Invalid extension: ''
                 @ join_js '', '' (errors (validateExtension sv (manifest e))))), ex)
      else if \<not> satisfied (checkDependencies ex (manifest e)) then
        (Some (JsError (''Missing dependencies: ''
                 @ join_js '', '' (map dep_id (missing (checkDependencies ex (manifest e)))))), ex)
      else (None, ex(ext_id e \<mapsto> e)))"
  by (simp add: registerExtension_def Let_def)

lemma missing_iff:
  "d \<in> set (missing (checkDependencies ex m)) \<longleftrightarrow>
     d \<in> set (dependencies (requirements m)) \<and> \<not> dep_optional d
     \<and> (case ex (dep_id d) of None \<Rightarrow> True
         | Some installed \<Rightarrow>
             compareSemver (meta_version (metadata (manifest installed))) (dep_version d) < 0)"
  by (auto simp: checkDependencies_def Let_def)

lemma satisfied_iff: "satisfied (checkDependencies ex m) \<longleftrightarrow> missing (checkDependencies ex m) = []"
  by (simp add: checkDependencies_def Let_def)

text \<open>
  Claim C7: when the manifest fails validation or a required dependency is unsatisfied,
  \<open>registerExtension\<close> throws and leaves the map as it was; whenever it throws the map is
  as it was; otherwise it stores the extension under its id and changes nothing else.
\<close>

theorem C7_registerExtension_atomic:
  "(\<not> valid (validateExtension sv (manifest e)) \<or> \<not> satisfied (checkDependencies ex (manifest e))
      \<longrightarrow> (\<exists>msg. registerExtension sv ex e = (Some (JsError msg), ex)))
   \<and> (fst (registerExtension sv ex e) \<noteq> None \<longrightarrow> snd (registerExtension sv ex e) = ex)
   \<and> (valid (validateExtension sv (manifest e)) \<and> satisfied (checkDependencies ex (manifest e))
      \<longrightarrow> registerExtension sv ex e = (None, ex(ext_id e \<mapsto> e)))"
  by (simp add: registerExtension_cases)

lemma not_valid_example: "\<not> isValidExtensionId ''example''"
  by (simp add: id_eval)

lemma bad_id_validation:
  "validateExtension accept_all (manifest bad_id_fonts_user) =
     \<lparr>valid = False, errors = [''Invalid extension ID format''], warnings = []\<rparr>"
  "validateExtension accept_all (manifest (with_optional core_fonts bad_id_fonts_user)) =
     \<lparr>valid = False, errors = [''Invalid extension ID format''], warnings = []\<rparr>"
  using demo_checks not_valid_example
  by (simp_all add: validateExtension_def validateManifest_def validateManifestStructure_def
        accept_all_def bad_id_fonts_user_def fonts_user_def demo_extension_def demo_manifest_def
        validatePermissions_def isCompatibleVersion_def appVersion_def Let_def
        with_optional_def mark_optional_def)

lemma fonts_user_validation:
  "valid (validateExtension accept_all (manifest fonts_user))"
  "valid (validateExtension accept_all (mark_optional core_fonts (manifest fonts_user)))"
  using demo_checks
  by (simp_all add: validateExtension_def validateManifest_def validateManifestStructure_def
        accept_all_def fonts_user_def demo_extension_def demo_manifest_def
        validatePermissions_def isCompatibleVersion_def appVersion_def Let_def
        mark_optional_def)

text \<open>
  Claim C6, as stated, fails: validation runs before the dependency check, so an extension
  whose manifest is invalid (here, an identifier of one segment) and requires an
  unregistered extension fails with the validation error, which does not name the
  dependency, and it fails the same way with the dependency marked optional.
\<close>

theorem C6_invalid_manifest_hides_dependency:
  "core_fonts \<in> set (dependencies (requirements (manifest bad_id_fonts_user)))
   \<and> \<not> dep_optional core_fonts
   \<and> registerExtension accept_all Map.empty bad_id_fonts_user =
       (Some (JsError ''Invalid extension: Invalid extension ID format''), Map.empty)
   \<and> \<not> sublist (dep_id core_fonts) ''Invalid extension: Invalid extension ID format''
   \<and> registerExtension accept_all Map.empty (with_optional core_fonts bad_id_fonts_user) =
       (Some (JsError ''Invalid extension: Invalid extension ID format''), Map.empty)"
proof -
  have "\<not> sublist (dep_id core_fonts) ''Invalid extension: Invalid extension ID format''"
    by (simp add: core_fonts_def sublist_Cons_right)
  moreover have "core_fonts \<in> set (dependencies (requirements (manifest bad_id_fonts_user)))"
    "\<not> dep_optional core_fonts"
    by (simp_all add: bad_id_fonts_user_def fonts_user_def core_fonts_def)
  ultimately show ?thesis
    by (simp add: registerExtension_cases bad_id_validation)
qed

text \<open>
  Claim C6, amended: for every registry and every extension whose manifest passes
  validation, a required dependency on an identifier that is not registered makes
  \<open>registerExtension\<close> throw \<open>Missing dependencies: ...\<close>, a message that contains the
  identifier, and leaves the registry unchanged; and when that dependency is the only
  unsatisfied one and the manifest with it marked optional passes validation, the extension
  with it marked optional is registered.
\<close>

theorem C6_required_dependency_blocks:
  assumes "d \<in> set (dependencies (requirements (manifest e)))"
    and "\<not> dep_optional d" and "ex (dep_id d) = None"
  shows "(valid (validateExtension sv (manifest e)) \<longrightarrow>
            (\<exists>msg. registerExtension sv ex e = (Some (JsError msg), ex)
               \<and> prefix ''Missing dependencies: '' msg \<and> sublist (dep_id d) msg))
       \<and> (valid (validateExtension sv (mark_optional d (manifest e)))
            \<and> set (missing (checkDependencies ex (manifest e))) \<subseteq> {d} \<longrightarrow>
          registerExtension sv ex (with_optional d e)
            = (None, ex(ext_id e \<mapsto> with_optional d e)))"
proof (intro conjI impI)
  assume v: "valid (validateExtension sv (manifest e))"
  have m: "d \<in> set (missing (checkDependencies ex (manifest e)))"
    using assms by (simp add: missing_iff)
  then have ns: "\<not> satisfied (checkDependencies ex (manifest e))"
    by (auto simp: satisfied_iff)
  let ?msg = "''Missing dependencies: ''
                 @ join_js '', '' (map dep_id (missing (checkDependencies ex (manifest e))))"
  have "registerExtension sv ex e = (Some (JsError ?msg), ex)"
    using v ns by (simp add: registerExtension_cases)
  moreover have "prefix ''Missing dependencies: '' ?msg"
    by (rule prefixI) (rule refl)
  moreover have "sublist (dep_id d) ?msg"
  proof -
    have "dep_id d \<in> set (map dep_id (missing (checkDependencies ex (manifest e))))"
      using m by simp
    then have "sublist (dep_id d)
                 (join_js '', '' (map dep_id (missing (checkDependencies ex (manifest e)))))"
      by (rule sublist_join_js)
    then show ?thesis
      unfolding sublist_append by blast
  qed
  ultimately show "\<exists>msg. registerExtension sv ex e = (Some (JsError msg), ex)
               \<and> prefix ''Missing dependencies: '' msg \<and> sublist (dep_id d) msg"
    by blast
next
  assume h: "valid (validateExtension sv (mark_optional d (manifest e)))
            \<and> set (missing (checkDependencies ex (manifest e))) \<subseteq> {d}"
  have "missing (checkDependencies ex (mark_optional d (manifest e))) = []"
  proof (rule ccontr)
    assume "missing (checkDependencies ex (mark_optional d (manifest e))) \<noteq> []"
    then obtain x where x: "x \<in> set (missing (checkDependencies ex (mark_optional d (manifest e))))"
      by (cases "missing (checkDependencies ex (mark_optional d (manifest e)))") auto
    then have xin: "x \<in> set (map (\<lambda>x. if x = d then x\<lparr>dep_optional := True\<rparr> else x)
                         (dependencies (requirements (manifest e))))"
      and xreq: "\<not> dep_optional x"
      and xun: "(case ex (dep_id x) of None \<Rightarrow> True
         | Some installed \<Rightarrow>
             compareSemver (meta_version (metadata (manifest installed))) (dep_version x) < 0)"
      by (simp_all add: missing_iff mark_optional_def)
    from xin obtain y where y: "y \<in> set (dependencies (requirements (manifest e)))"
        "x = (if y = d then y\<lparr>dep_optional := True\<rparr> else y)"
      by auto
    with xreq have "y \<noteq> d" "x = y"
      by (auto split: if_splits)
    then have "x \<in> set (missing (checkDependencies ex (manifest e)))" "x \<noteq> d"
      using y(1) xreq xun by (auto simp add: missing_iff split: option.splits)
    with h show False by blast
  qed
  then have "satisfied (checkDependencies ex (manifest (with_optional d e)))"
    by (simp add: satisfied_iff with_optional_def)
  moreover have "valid (validateExtension sv (manifest (with_optional d e)))"
    using h by (simp add: with_optional_def)
  moreover have "ext_id (with_optional d e) = ext_id e"
    by (simp add: with_optional_def)
  ultimately show "registerExtension sv ex (with_optional d e)
            = (None, ex(ext_id e \<mapsto> with_optional d e))"
    by (simp add: registerExtension_cases)
qed

lemma fonts_user_missing:
  "missing (checkDependencies Map.empty (manifest fonts_user)) = [core_fonts]"
  by (simp add: checkDependencies_def fonts_user_def core_fonts_def Let_def)

theorem C6_required_dependency_blocks_witness:
  "(\<exists>msg. registerExtension accept_all Map.empty fonts_user = (Some (JsError msg), Map.empty)
       \<and> prefix ''Missing dependencies: '' msg \<and> sublist ''com.lousa.core-fonts'' msg)
   \<and> registerExtension accept_all Map.empty (with_optional core_fonts fonts_user)
       = (None, [''com.acme.mathpack'' \<mapsto> with_optional core_fonts fonts_user])"
proof -
  have 1: "core_fonts \<in> set (dependencies (requirements (manifest fonts_user)))"
    by (simp add: fonts_user_def)
  have 2: "\<not> dep_optional core_fonts" by (simp add: core_fonts_def)
  have 3: "(Map.empty :: registry) (dep_id core_fonts) = None" by simp
  have 4: "set (missing (checkDependencies Map.empty (manifest fonts_user))) \<subseteq> {core_fonts}"
    by (simp add: fonts_user_missing)
  have 5: "dep_id core_fonts = ''com.lousa.core-fonts''" by (simp add: core_fonts_def)
  have 6: "ext_id fonts_user = ''com.acme.mathpack''"
    by (simp add: fonts_user_def demo_extension_def)
  show ?thesis
    using C6_required_dependency_blocks[OF 1 2 3, of accept_all] fonts_user_validation 4
    unfolding 5 6 by blast
qed

theorem C7_registerExtension_atomic_witness:
  "(\<exists>msg. registerExtension accept_all [''org.other.pack'' \<mapsto> demo_extension Enabled]
             bad_id_fonts_user
           = (Some (JsError msg), [''org.other.pack'' \<mapsto> demo_extension Enabled]))
   \<and> (\<exists>msg. registerExtension accept_all [''org.other.pack'' \<mapsto> demo_extension Enabled]
             fonts_user
           = (Some (JsError msg), [''org.other.pack'' \<mapsto> demo_extension Enabled]))"
proof -
  have 1: "\<not> valid (validateExtension accept_all (manifest bad_id_fonts_user))"
    by (simp add: bad_id_validation)
  have 2: "\<not> satisfied (checkDependencies [''org.other.pack'' \<mapsto> demo_extension Enabled]
                 (manifest fonts_user))"
    by (simp add: checkDependencies_def fonts_user_def core_fonts_def Let_def)
  show ?thesis
    using C7_registerExtension_atomic
            [of accept_all bad_id_fonts_user "[''org.other.pack'' \<mapsto> demo_extension Enabled]"]
          C7_registerExtension_atomic
            [of accept_all fonts_user "[''org.other.pack'' \<mapsto> demo_extension Enabled]"]
          1 2
    by blast
qed

section \<open>The cloud resource manager\<close>

subsection \<open>The stale cache as fallback\<close>

lemmas cloud_eval =
  perform_def loadResource_def getFromCache_def addToCache_def handleFallback_def
  isCircuitOpen_def incrementCircuitBreaker_def resetCircuitBreaker_def
  failing_call_def succeeding_call_def empty_manager_def cache_hit_def fallback_of_def
  default_timeout_def Let_def

lemma loadResource_no_cache:
  assumes "opt_cache options = Some False"
  shows "loadResource mgr url options rd network =
     (let fallback = (case opt_fallback options of None \<Rightarrow> FallbackCache | Some f \<Rightarrow> f);
          (is_open, mgr2) = isCircuitOpen mgr url (at_circuit rd)
      in if is_open then
           \<lparr>returned = handleFallback mgr2 url fallback, manager_after = mgr2,
            asked_network = False\<rparr>
         else
           (case network of
              Fetched blob \<Rightarrow>
                \<lparr>returned = Inr blob, manager_after = resetCircuitBreaker mgr2 url,
                 asked_network = True\<rparr>
            | FetchFailed \<Rightarrow>
                \<lparr>returned = handleFallback (incrementCircuitBreaker mgr2 url (at_done rd)) url fallback,
                 manager_after = incrementCircuitBreaker mgr2 url (at_done rd),
                 asked_network = True\<rparr>))"
  using assms by (simp add: loadResource_def Let_def split: prod.splits fetch_outcome.splits)

lemma isCircuitOpen_cache: "cache (snd (isCircuitOpen mgr url now)) = cache mgr"
  by (simp add: isCircuitOpen_def Let_def split: option.splits)

lemma incrementCircuitBreaker_cache: "cache (incrementCircuitBreaker mgr url now) = cache mgr"
  by (simp add: incrementCircuitBreaker_def Let_def)

lemma handleFallback_cached:
  "cache mgr url = Some entry \<Longrightarrow> handleFallback mgr url FallbackCache = Inr (data entry)"
  by (simp add: handleFallback_def)

lemma stale_fallback:
  assumes "cache mgr url = Some entry" "opt_cache options = Some False"
    "opt_fallback options = Some FallbackCache"
    "network = FetchFailed \<or> fst (isCircuitOpen mgr url (at_circuit rd))"
  shows "returned (loadResource mgr url options rd network) = Inr (data entry)"
proof -
  obtain is_open mgr2 where io: "isCircuitOpen mgr url (at_circuit rd) = (is_open, mgr2)"
    by (cases "isCircuitOpen mgr url (at_circuit rd)")
  then have c2: "cache mgr2 = cache mgr"
    using isCircuitOpen_cache[of mgr url "at_circuit rd"] by simp
  show ?thesis
  proof (cases is_open)
    case True
    then show ?thesis
      using assms(1,3) c2
      by (simp add: loadResource_no_cache[OF assms(2)] io handleFallback_cached Let_def)
  next
    case False
    then have "network = FetchFailed" using assms(4) io by simp
    then show ?thesis
      using False assms(1,3) c2
      by (simp add: loadResource_no_cache[OF assms(2)] io handleFallback_cached
            incrementCircuitBreaker_cache Let_def)
  qed
qed

lemma stale_fallback_keeps_entry:
  assumes "opt_cache options = Some False"
  shows "cache (manager_after (loadResource mgr url options rd FetchFailed)) = cache mgr"
proof -
  obtain is_open mgr2 where io: "isCircuitOpen mgr url (at_circuit rd) = (is_open, mgr2)"
    by (cases "isCircuitOpen mgr url (at_circuit rd)")
  then have c2: "cache mgr2 = cache mgr"
    using isCircuitOpen_cache[of mgr url "at_circuit rd"] by simp
  show ?thesis
    using c2 by (simp add: loadResource_no_cache[OF assms] io incrementCircuitBreaker_cache Let_def)
qed

lemma fetched_is_cached:
  assumes "opt_cache options0 \<noteq> Some False"
    and "asked_network (loadResource mgr0 url options0 rd0 (Fetched blob))"
  shows "cache (manager_after (loadResource mgr0 url options0 rd0 (Fetched blob))) url
           = Some \<lparr>data = blob, timestamp = at_done rd0\<rparr>"
proof -
  have uc: "(case opt_cache options0 of None \<Rightarrow> True | Some b \<Rightarrow> b)"
    using assms(1) by (cases "opt_cache options0") auto
  show ?thesis
    using assms(2) uc
    by (auto simp: loadResource_def Let_def addToCache_def resetCircuitBreaker_def
          split: prod.splits option.splits if_splits)
qed

text \<open>
  Claim C10: when the cache map holds an entry for the URL, a call with \<open>cache: false\<close>
  and \<open>fallback: 'cache'\<close> whose fetch fails, or that finds the circuit open, returns the
  payload of that entry, whatever the age of the entry and whatever the TTL; such a call
  leaves the cache as it is; and so a payload that an earlier call fetched and cached is
  what the next such call returns when its fetch fails.
\<close>

theorem C10_stale_cache_fallback:
  "(cache mgr url = Some entry \<and> opt_cache options = Some False
      \<and> opt_fallback options = Some FallbackCache
      \<and> (network = FetchFailed \<or> fst (isCircuitOpen mgr url (at_circuit rd)))
    \<longrightarrow> returned (loadResource mgr url options rd network) = Inr (data entry))
   \<and> (opt_cache options = Some False
    \<longrightarrow> cache (manager_after (loadResource mgr url options rd FetchFailed)) = cache mgr)
   \<and> (opt_cache options0 \<noteq> Some False
      \<and> asked_network (loadResource mgr0 url options0 rd0 (Fetched blob))
      \<and> opt_cache options = Some False \<and> opt_fallback options = Some FallbackCache
    \<longrightarrow> returned (loadResource (manager_after (loadResource mgr0 url options0 rd0 (Fetched blob)))
                    url options rd FetchFailed) = Inr blob)"
proof (intro conjI impI)
  assume "cache mgr url = Some entry \<and> opt_cache options = Some False
      \<and> opt_fallback options = Some FallbackCache
      \<and> (network = FetchFailed \<or> fst (isCircuitOpen mgr url (at_circuit rd)))"
  then show "returned (loadResource mgr url options rd network) = Inr (data entry)"
    using stale_fallback[of mgr url entry options network rd] by blast
next
  assume "opt_cache options = Some False"
  then show "cache (manager_after (loadResource mgr url options rd FetchFailed)) = cache mgr"
    by (rule stale_fallback_keeps_entry)
next
  assume h: "opt_cache options0 \<noteq> Some False
      \<and> asked_network (loadResource mgr0 url options0 rd0 (Fetched blob))
      \<and> opt_cache options = Some False \<and> opt_fallback options = Some FallbackCache"
  then have "cache (manager_after (loadResource mgr0 url options0 rd0 (Fetched blob))) url
           = Some \<lparr>data = blob, timestamp = at_done rd0\<rparr>"
    using fetched_is_cached[of options0 mgr0 url rd0 blob] by blast
  then show "returned (loadResource (manager_after (loadResource mgr0 url options0 rd0 (Fetched blob)))
                    url options rd FetchFailed) = Inr blob"
    using h stale_fallback[of _ url "\<lparr>data = blob, timestamp = at_done rd0\<rparr>" options FetchFailed rd]
    by simp
qed

theorem C10_stale_cache_fallback_witness:
  "returned (loadResource
      \<lparr>cache = [''u'' \<mapsto> \<lparr>data = some_blob, timestamp = 0\<rparr>], circuitBreakerState = Map.empty\<rparr>
      ''u'' \<lparr>opt_cache = Some False, opt_cacheTTL = Some 1000, opt_fallback = Some FallbackCache\<rparr>
      \<lparr>at_cache = 1000000000000, at_circuit = 1000000000000, at_done = 1000000000100\<rparr>
      FetchFailed) = Inr some_blob"
  using C10_stale_cache_fallback
    [of "\<lparr>cache = [''u'' \<mapsto> \<lparr>data = some_blob, timestamp = 0\<rparr>], circuitBreakerState = Map.empty\<rparr>"
        "''u''" "\<lparr>data = some_blob, timestamp = 0\<rparr>"
        "\<lparr>opt_cache = Some False, opt_cacheTTL = Some 1000, opt_fallback = Some FallbackCache\<rparr>"
        FetchFailed]
  by simp

subsection \<open>The circuit breaker\<close>

lemma getFromCache_circuit:
  "circuitBreakerState (snd (getFromCache mgr url ttl now)) = circuitBreakerState mgr"
  by (simp add: getFromCache_def Let_def split: option.splits)

text \<open>A call that is not served from the cache goes on to the circuit check.\<close>

lemma perform_after_cache:
  assumes "\<not> cache_hit mgr c"
  shows "\<exists>mgr1. circuitBreakerState mgr1 = circuitBreakerState mgr
           \<and> perform mgr c =
              (let (is_open, mgr2) = isCircuitOpen mgr1 (c_url c) (at_circuit (c_readings c))
               in if is_open then
                    \<lparr>returned = handleFallback mgr2 (c_url c) (fallback_of c),
                     manager_after = mgr2, asked_network = False\<rparr>
                  else
                    (case c_network c of
                       Fetched blob \<Rightarrow>
                         \<lparr>returned = Inr blob,
                          manager_after = resetCircuitBreaker
                            (if (case opt_cache (c_options c) of None \<Rightarrow> True | Some b \<Rightarrow> b)
                             then addToCache mgr2 (c_url c) blob (at_done (c_readings c))
                             else mgr2) (c_url c),
                          asked_network = True\<rparr>
                     | FetchFailed \<Rightarrow>
                         \<lparr>returned = handleFallback
                            (incrementCircuitBreaker mgr2 (c_url c) (at_done (c_readings c)))
                            (c_url c) (fallback_of c),
                          manager_after =
                            incrementCircuitBreaker mgr2 (c_url c) (at_done (c_readings c)),
                          asked_network = True\<rparr>))"
proof (cases "case opt_cache (c_options c) of None \<Rightarrow> True | Some b \<Rightarrow> b")
  case False
  then show ?thesis
    by (intro exI[of _ mgr])
       (simp add: perform_def loadResource_def fallback_of_def Let_def
          split: prod.splits fetch_outcome.splits)
next
  case True
  let ?ttl = "case opt_cacheTTL (c_options c) of None \<Rightarrow> 86400 * 1000 | Some t \<Rightarrow> t"
  obtain mgr1 where g: "getFromCache mgr (c_url c) ?ttl (at_cache (c_readings c)) = (None, mgr1)"
    using assms True
    by (cases "getFromCache mgr (c_url c) ?ttl (at_cache (c_readings c))")
       (simp add: cache_hit_def)
  then have "circuitBreakerState mgr1 = circuitBreakerState mgr"
    using getFromCache_circuit[of mgr "c_url c" ?ttl "at_cache (c_readings c)"] by simp
  then show ?thesis
    using True g
    by (intro exI[of _ mgr1])
       (simp add: perform_def loadResource_def fallback_of_def Let_def
          split: prod.splits fetch_outcome.splits)
qed

lemma asked_not_cache_hit: "asked_network (perform mgr c) \<Longrightarrow> \<not> cache_hit mgr c"
  by (auto simp: perform_def loadResource_def cache_hit_def Let_def
        split: prod.splits option.splits if_splits)

lemma failed_step_fresh:
  assumes "c_network c = FetchFailed" "asked_network (perform mgr c)"
    and "circuitBreakerState mgr (c_url c) = None
         \<or> (\<exists>s. circuitBreakerState mgr (c_url c) = Some s
                \<and> at_circuit (c_readings c) - lastFailure s > resetTimeout s)"
  shows "circuitBreakerState (manager_after (perform mgr c)) (c_url c) =
           Some \<lparr>failures = 1, lastFailure = at_done (c_readings c), resetTimeout = 60000\<rparr>"
proof -
  obtain mgr1 where m1: "circuitBreakerState mgr1 = circuitBreakerState mgr"
    and p: "perform mgr c =
              (let (is_open, mgr2) = isCircuitOpen mgr1 (c_url c) (at_circuit (c_readings c))
               in if is_open then
                    \<lparr>returned = handleFallback mgr2 (c_url c) (fallback_of c),
                     manager_after = mgr2, asked_network = False\<rparr>
                  else
                    (case c_network c of
                       Fetched blob \<Rightarrow>
                         \<lparr>returned = Inr blob,
                          manager_after = resetCircuitBreaker
                            (if (case opt_cache (c_options c) of None \<Rightarrow> True | Some b \<Rightarrow> b)
                             then addToCache mgr2 (c_url c) blob (at_done (c_readings c))
                             else mgr2) (c_url c),
                          asked_network = True\<rparr>
                     | FetchFailed \<Rightarrow>
                         \<lparr>returned = handleFallback
                            (incrementCircuitBreaker mgr2 (c_url c) (at_done (c_readings c)))
                            (c_url c) (fallback_of c),
                          manager_after =
                            incrementCircuitBreaker mgr2 (c_url c) (at_done (c_readings c)),
                          asked_network = True\<rparr>))"
    using perform_after_cache[OF asked_not_cache_hit[OF assms(2)]] by blast
  show ?thesis
    using assms(1,3) m1 unfolding p
    by (auto simp: isCircuitOpen_def incrementCircuitBreaker_def Let_def split: option.splits)
qed

lemma failed_step_within:
  assumes "c_network c = FetchFailed" "asked_network (perform mgr c)"
    and "circuitBreakerState mgr (c_url c) = Some s"
    and "at_circuit (c_readings c) - lastFailure s \<le> resetTimeout s"
  shows "circuitBreakerState (manager_after (perform mgr c)) (c_url c) =
           Some (s\<lparr>failures := failures s + 1, lastFailure := at_done (c_readings c)\<rparr>)"
proof -
  obtain mgr1 where m1: "circuitBreakerState mgr1 = circuitBreakerState mgr"
    and p: "perform mgr c =
              (let (is_open, mgr2) = isCircuitOpen mgr1 (c_url c) (at_circuit (c_readings c))
               in if is_open then
                    \<lparr>returned = handleFallback mgr2 (c_url c) (fallback_of c),
                     manager_after = mgr2, asked_network = False\<rparr>
                  else
                    (case c_network c of
                       Fetched blob \<Rightarrow>
                         \<lparr>returned = Inr blob,
                          manager_after = resetCircuitBreaker
                            (if (case opt_cache (c_options c) of None \<Rightarrow> True | Some b \<Rightarrow> b)
                             then addToCache mgr2 (c_url c) blob (at_done (c_readings c))
                             else mgr2) (c_url c),
                          asked_network = True\<rparr>
                     | FetchFailed \<Rightarrow>
                         \<lparr>returned = handleFallback
                            (incrementCircuitBreaker mgr2 (c_url c) (at_done (c_readings c)))
                            (c_url c) (fallback_of c),
                          manager_after =
                            incrementCircuitBreaker mgr2 (c_url c) (at_done (c_readings c)),
                          asked_network = True\<rparr>))"
    using perform_after_cache[OF asked_not_cache_hit[OF assms(2)]] by blast
  show ?thesis
    using assms(1,3,4) m1 assms(2)[unfolded p] unfolding p
    by (auto simp: isCircuitOpen_def incrementCircuitBreaker_def Let_def
          split: option.splits if_splits)
qed

lemma circuit_open_skips_network:
  assumes "\<not> cache_hit mgr c" "circuitBreakerState mgr (c_url c) = Some s"
    and "5 \<le> failures s" "at_circuit (c_readings c) - lastFailure s \<le> resetTimeout s"
  shows "\<not> asked_network (perform mgr c)
       \<and> returned (perform mgr c)
           = handleFallback (manager_after (perform mgr c)) (c_url c) (fallback_of c)
       \<and> circuitBreakerState (manager_after (perform mgr c)) = circuitBreakerState mgr"
proof -
  obtain mgr1 where m1: "circuitBreakerState mgr1 = circuitBreakerState mgr"
    and p: "perform mgr c =
              (let (is_open, mgr2) = isCircuitOpen mgr1 (c_url c) (at_circuit (c_readings c))
               in if is_open then
                    \<lparr>returned = handleFallback mgr2 (c_url c) (fallback_of c),
                     manager_after = mgr2, asked_network = False\<rparr>
                  else
                    (case c_network c of
                       Fetched blob \<Rightarrow>
                         \<lparr>returned = Inr blob,
                          manager_after = resetCircuitBreaker
                            (if (case opt_cache (c_options c) of None \<Rightarrow> True | Some b \<Rightarrow> b)
                             then addToCache mgr2 (c_url c) blob (at_done (c_readings c))
                             else mgr2) (c_url c),
                          asked_network = True\<rparr>
                     | FetchFailed \<Rightarrow>
                         \<lparr>returned = handleFallback
                            (incrementCircuitBreaker mgr2 (c_url c) (at_done (c_readings c)))
                            (c_url c) (fallback_of c),
                          manager_after =
                            incrementCircuitBreaker mgr2 (c_url c) (at_done (c_readings c)),
                          asked_network = True\<rparr>))"
    using perform_after_cache[OF assms(1)] by blast
  have "isCircuitOpen mgr1 (c_url c) (at_circuit (c_readings c)) = (True, mgr1)"
    using assms(2-4) m1 by (simp add: isCircuitOpen_def Let_def)
  then show ?thesis
    unfolding p using m1 by simp
qed

lemma circuit_expired_asks_network:
  assumes "\<not> cache_hit mgr c" "circuitBreakerState mgr (c_url c) = Some s"
    and "at_circuit (c_readings c) - lastFailure s > resetTimeout s"
  shows "asked_network (perform mgr c)"
proof -
  obtain mgr1 where m1: "circuitBreakerState mgr1 = circuitBreakerState mgr"
    and p: "perform mgr c =
              (let (is_open, mgr2) = isCircuitOpen mgr1 (c_url c) (at_circuit (c_readings c))
               in if is_open then
                    \<lparr>returned = handleFallback mgr2 (c_url c) (fallback_of c),
                     manager_after = mgr2, asked_network = False\<rparr>
                  else
                    (case c_network c of
                       Fetched blob \<Rightarrow>
                         \<lparr>returned = Inr blob,
                          manager_after = resetCircuitBreaker
                            (if (case opt_cache (c_options c) of None \<Rightarrow> True | Some b \<Rightarrow> b)
                             then addToCache mgr2 (c_url c) blob (at_done (c_readings c))
                             else mgr2) (c_url c),
                          asked_network = True\<rparr>
                     | FetchFailed \<Rightarrow>
                         \<lparr>returned = handleFallback
                            (incrementCircuitBreaker mgr2 (c_url c) (at_done (c_readings c)))
                            (c_url c) (fallback_of c),
                          manager_after =
                            incrementCircuitBreaker mgr2 (c_url c) (at_done (c_readings c)),
                          asked_network = True\<rparr>))"
    using perform_after_cache[OF assms(1)] by blast
  have "fst (isCircuitOpen mgr1 (c_url c) (at_circuit (c_readings c))) = False"
    using assms(2,3) m1 by (simp add: isCircuitOpen_def Let_def)
  then show ?thesis
    unfolding p by (auto split: prod.splits fetch_outcome.splits)
qed

lemma success_resets:
  assumes "asked_network (perform mgr c)" "c_network c = Fetched blob"
  shows "returned (perform mgr c) = Inr blob
       \<and> circuitBreakerState (manager_after (perform mgr c)) (c_url c) = None"
  using assms
  by (auto simp: perform_def loadResource_def resetCircuitBreaker_def addToCache_def Let_def
        split: prod.splits option.splits if_splits)

lemma streak_counts_on:
  assumes "failing_streak mgr url cs" "cs \<noteq> []"
    and "circuitBreakerState mgr url = Some s" "resetTimeout s = 60000"
    and "at_circuit (c_readings (hd cs)) - lastFailure s \<le> 60000"
  shows "circuitBreakerState (run mgr cs) url =
           Some \<lparr>failures = failures s + length cs,
                 lastFailure = at_done (c_readings (last cs)), resetTimeout = 60000\<rparr>"
  using assms
proof (induction cs arbitrary: mgr s)
  case Nil
  then show ?case by simp
next
  case (Cons c cs)
  let ?m = "manager_after (perform mgr c)"
  let ?s = "s\<lparr>failures := failures s + 1, lastFailure := at_done (c_readings c)\<rparr>"
  from Cons.prems(1) have c: "c_url c = url" "c_network c = FetchFailed"
      "asked_network (perform mgr c)" and rest: "failing_streak ?m url cs"
    by simp_all
  have step: "circuitBreakerState ?m url = Some ?s"
    using failed_step_within[OF c(2,3), of s] Cons.prems(3,4,5) c(1) by simp
  show ?case
  proof (cases cs)
    case Nil
    then show ?thesis using step Cons.prems(4) by simp
  next
    case (Cons c' cs')
    then have w: "at_circuit (c_readings (hd cs)) - lastFailure ?s \<le> 60000"
      using Cons.prems(1) by simp
    have "circuitBreakerState (run ?m cs) url =
           Some \<lparr>failures = failures ?s + length cs,
                 lastFailure = at_done (c_readings (last cs)), resetTimeout = 60000\<rparr>"
      using Cons.IH[OF rest _ step _ w] Cons Cons.prems(4) by simp
    then show ?thesis using Cons by simp
  qed
qed

lemma streak_counts:
  assumes "failing_streak mgr url cs" "cs \<noteq> []" "default_timeout mgr url"
  shows "\<exists>s. circuitBreakerState (run mgr cs) url = Some s \<and> length cs \<le> failures s
            \<and> lastFailure s = at_done (c_readings (last cs)) \<and> resetTimeout s = 60000"
proof -
  obtain c cs' where cs: "cs = c # cs'" using assms(2) by (cases cs) auto
  let ?m = "manager_after (perform mgr c)"
  from assms(1) cs have c: "c_url c = url" "c_network c = FetchFailed"
      "asked_network (perform mgr c)" and rest: "failing_streak ?m url cs'"
    by simp_all
  have "\<exists>s1. circuitBreakerState ?m url = Some s1 \<and> 1 \<le> failures s1
            \<and> lastFailure s1 = at_done (c_readings c) \<and> resetTimeout s1 = 60000"
  proof (cases "circuitBreakerState mgr url")
    case None
    then show ?thesis using failed_step_fresh[OF c(2,3)] c(1) by simp
  next
    case (Some s)
    then have rt: "resetTimeout s = 60000"
      using assms(3) by (simp add: default_timeout_def)
    show ?thesis
    proof (cases "at_circuit (c_readings c) - lastFailure s > resetTimeout s")
      case True
      then show ?thesis using failed_step_fresh[OF c(2,3)] c(1) Some by simp
    next
      case False
      then show ?thesis using failed_step_within[OF c(2,3), of s] c(1) Some rt by simp
    qed
  qed
  then obtain s1 where s1: "circuitBreakerState ?m url = Some s1" "1 \<le> failures s1"
      "lastFailure s1 = at_done (c_readings c)" "resetTimeout s1 = 60000"
    by blast
  show ?thesis
  proof (cases cs')
    case Nil
    then show ?thesis using s1 cs by simp
  next
    case (Cons c' cs'')
    then have w: "at_circuit (c_readings (hd cs')) - lastFailure s1 \<le> 60000"
      using assms(1) cs s1(3) by simp
    have "circuitBreakerState (run ?m cs') url =
           Some \<lparr>failures = failures s1 + length cs',
                 lastFailure = at_done (c_readings (last cs')), resetTimeout = 60000\<rparr>"
      using streak_counts_on[OF rest _ s1(1) s1(4) w] Cons by simp
    then show ?thesis using cs Cons s1(2) by simp
  qed
qed

text \<open>
  Claim C8, amended: after five failed fetches in a row for one URL, each but the first
  begun within the reset timeout (one minute) of the failure before it, a further call for
  that URL that is not served from the cache and checks the circuit within the reset
  timeout of the last failure asks no network and returns what the fallback gives; a call
  that checks the circuit more than the reset timeout after the last failure asks the
  network again; and a fetch that succeeds deletes the URL's failure count at once.
\<close>

theorem C8_circuit_breaker:
  assumes "failing_streak mgr url cs" "length cs = 5" "default_timeout mgr url"
    and "c_url c = url" "\<not> cache_hit (run mgr cs) c"
  shows "(at_circuit (c_readings c) - at_done (c_readings (last cs)) \<le> 60000 \<longrightarrow>
            \<not> asked_network (perform (run mgr cs) c)
            \<and> returned (perform (run mgr cs) c)
                = handleFallback (manager_after (perform (run mgr cs) c)) url (fallback_of c))
       \<and> (at_circuit (c_readings c) - at_done (c_readings (last cs)) > 60000 \<longrightarrow>
            asked_network (perform (run mgr cs) c))
       \<and> (asked_network (perform mgr' c') \<and> c_network c' = Fetched blob \<longrightarrow>
            returned (perform mgr' c') = Inr blob
            \<and> circuitBreakerState (manager_after (perform mgr' c')) (c_url c') = None)"
proof -
  have ne: "cs \<noteq> []" using assms(2) by auto
  obtain s where s: "circuitBreakerState (run mgr cs) url = Some s" "length cs \<le> failures s"
      "lastFailure s = at_done (c_readings (last cs))" "resetTimeout s = 60000"
    using streak_counts[OF assms(1) ne assms(3)] by blast
  have s': "circuitBreakerState (run mgr cs) (c_url c) = Some s" "5 \<le> failures s"
    using s(1,2) assms(2,4) by simp_all
  have a: "at_circuit (c_readings c) - at_done (c_readings (last cs)) \<le> 60000 \<Longrightarrow>
            \<not> asked_network (perform (run mgr cs) c)
            \<and> returned (perform (run mgr cs) c)
                = handleFallback (manager_after (perform (run mgr cs) c)) url (fallback_of c)"
    using circuit_open_skips_network[OF assms(5) s'] s(3,4) assms(4) by simp
  have b: "at_circuit (c_readings c) - at_done (c_readings (last cs)) > 60000 \<Longrightarrow>
            asked_network (perform (run mgr cs) c)"
    using circuit_expired_asks_network[OF assms(5) s'(1)] s(3,4) by simp
  show ?thesis
    using a b success_resets[of mgr' c' blob] by blast
qed

text \<open>
  Claim C8, as stated, fails: five failed fetches in a row that are seventy seconds apart
  do not open the circuit, because each call first finds the previous failure older than
  the reset timeout and deletes the count. A sixth call 900 ms after the fifth failure
  asks the network.
\<close>

theorem C8_spaced_failures_keep_circuit_closed:
  "run_log empty_manager (spaced_failures @ [failing_call 281000])
     = [True, True, True, True, True, True]
   \<and> length spaced_failures = 5
   \<and> list_all (\<lambda>c. c_url c = c_url (failing_call 281000) \<and> c_network c = FetchFailed)
        spaced_failures
   \<and> at_circuit (c_readings (failing_call 281000)) - at_done (c_readings (last spaced_failures))
        = 900"
  by (simp add: spaced_failures_def cloud_eval)

lemma quick_streak:
  "failing_streak empty_manager ''https://cdn.lousa.digital/a.png'' quick_failures"
  by (simp add: quick_failures_def cloud_eval)

theorem C8_circuit_breaker_witness:
  "\<not> asked_network (perform (run empty_manager quick_failures) (failing_call 5000))
   \<and> asked_network (perform (run empty_manager quick_failures) (failing_call 64101))
   \<and> circuitBreakerState
        (manager_after (perform (run empty_manager (take 4 quick_failures)) (succeeding_call 3500)))
        ''https://cdn.lousa.digital/a.png'' = None"
proof -
  have 1: "length quick_failures = 5" by (simp add: quick_failures_def)
  have 2: "default_timeout empty_manager ''https://cdn.lousa.digital/a.png''"
    by (simp add: default_timeout_def empty_manager_def)
  have 3: "c_url (failing_call 5000) = ''https://cdn.lousa.digital/a.png''"
    "c_url (failing_call 64101) = ''https://cdn.lousa.digital/a.png''"
    "c_url (succeeding_call 3500) = ''https://cdn.lousa.digital/a.png''"
    by (simp_all add: failing_call_def succeeding_call_def)
  have 4: "\<not> cache_hit (run empty_manager quick_failures) (failing_call 5000)"
    "\<not> cache_hit (run empty_manager quick_failures) (failing_call 64101)"
    by (simp_all add: cache_hit_def failing_call_def)
  have 5: "at_circuit (c_readings (failing_call 5000)) - at_done (c_readings (last quick_failures))
             \<le> 60000"
    "at_circuit (c_readings (failing_call 64101)) - at_done (c_readings (last quick_failures))
             > 60000"
    by (simp_all add: quick_failures_def failing_call_def)
  have 6: "asked_network (perform (run empty_manager (take 4 quick_failures)) (succeeding_call 3500))"
    "c_network (succeeding_call 3500) = Fetched some_blob"
    by (simp_all add: quick_failures_def cloud_eval)
  show ?thesis
    using C8_circuit_breaker[OF quick_streak 1 2 3(1) 4(1),
            of "run empty_manager (take 4 quick_failures)" "succeeding_call 3500" some_blob]
      C8_circuit_breaker[OF quick_streak 1 2 3(2) 4(2)] 5 6 3(3)
    by simp
qed

section \<open>Packages: the manifest checksum\<close>

lemma length_join_js:
  "length (join_js sep xs) = sum_list (map length xs) + (length xs - 1) * length sep"
  by (induction sep xs rule: join_js.induct) simp_all

lemma sum_list_filter_le:
  "sum_list (map g (filter P xs)) \<le> sum_list (map (g :: 'a \<Rightarrow> nat) xs)"
  by (induction xs) simp_all

lemma sum_list_filter_removed:
  "x \<in> set xs \<Longrightarrow> \<not> P x \<Longrightarrow>
   sum_list (map g (filter P xs)) + g x \<le> sum_list (map (g :: 'a \<Rightarrow> nat) xs)"
proof (induction xs)
  case Nil
  then show ?case by simp
next
  case (Cons a xs)
  show ?case
  proof (cases "a = x")
    case True
    then show ?thesis using Cons.prems(2) sum_list_filter_le[of g P xs] by simp
  next
    case False
    then show ?thesis using Cons by auto
  qed
qed

lemma join_filter_shorter:
  assumes "x \<in> set xs" "\<not> P x" "f x \<noteq> []"
  shows "length (join_js sep (map f (filter P xs))) < length (join_js sep (map f xs))"
proof -
  have 1: "sum_list (map (length \<circ> f) (filter P xs)) + length (f x)
             \<le> sum_list (map (length \<circ> f) xs)"
    using sum_list_filter_removed[of x xs P "length \<circ> f"] assms(1,2) by simp
  have 2: "length (filter P xs) \<le> length xs" by simp
  then have 3: "(length (filter P xs) - 1) * length sep \<le> (length xs - 1) * length sep"
    by (simp add: diff_le_mono)
  have 4: "0 < length (f x)" using assms(3) by simp
  show ?thesis
    unfolding length_join_js length_map map_map using 1 3 4 by linarith
qed

lemma member_text_nonempty: "quote (fst kv) @ '':'' @ stringify (snd kv) \<noteq> []"
  by (simp add: quote_def)

lemma stringify_delete_key:
  assumes "k \<in> fst ` set kvs"
  shows "length (stringify (JObj (delete_key kvs k))) < length (stringify (JObj kvs))"
proof -
  from assms obtain kv where kv: "kv \<in> set kvs" "\<not> fst kv \<noteq> k" by auto
  show ?thesis
    using join_filter_shorter[of kv kvs "\<lambda>kv. fst kv \<noteq> k"
        "\<lambda>kv. quote (fst kv) @ '':'' @ stringify (snd kv)" "'',''"]
      kv member_text_nonempty[of kv]
    by (simp add: delete_key_def)
qed

lemma invariant_has_integrity:
  assumes "integrity_invariant createHash m"
  shows "\<exists>kvs. m = JObj kvs \<and> ''integrity'' \<in> fst ` set kvs"
proof -
  from assms have "get m ''integrity'' \<noteq> None"
    by (auto simp: integrity_invariant_def stored_checksum_def get_opt_def
        split: option.splits)
  then show ?thesis
    by (cases m) (auto simp: get_def dest: map_of_SomeD intro: rev_image_eqI)
qed

lemma stamped_text_differs:
  assumes "integrity_invariant createHash m"
  shows "stringify m \<noteq> stringify (without_integrity m)"
proof -
  obtain kvs where m: "m = JObj kvs" "''integrity'' \<in> fst ` set kvs"
    using invariant_has_integrity[OF assms] by blast
  have "length (stringify (without_integrity m)) < length (stringify m)"
    unfolding m(1) without_integrity_def using stringify_delete_key[OF m(2)] by simp
  then show ?thesis by auto
qed


lemma map_of_assign: "map_of (assign kvs k v) k = Some v"
  by (induction kvs) auto

lemma delete_key_assign: "delete_key (assign kvs k v) k = delete_key kvs k"
  by (induction kvs) (auto simp: delete_key_def)

lemma stamp_invariant: "integrity_invariant createHash (stamp createHash (JObj kvs))"
  by (simp add: integrity_invariant_def stamp_def stored_checksum_def get_def get_opt_def
      map_of_assign generateIntegrity_def without_integrity_def delete_key_assign Let_def)

lemma map_of_zip_put:
  "map_of (zip_put z name e) k = (if k = name then Some e else map_of z k)"
  by (induction z) auto

lemma map_of_foldl_zip_put:
  "\<forall>x\<in>set xs. name x \<noteq> k \<Longrightarrow>
   map_of (foldl (\<lambda>z x. zip_put z (name x) (entry x)) z xs) k = map_of z k"
  by (induction xs arbitrary: z) (auto simp add: map_of_zip_put)

lemma map_of_put_text:
  "k \<noteq> name \<Longrightarrow> map_of (put_text z name text) k = map_of z k"
  by (simp add: put_text_def map_of_zip_put split: option.splits)

lemma add_templates_keeps:
  assumes "add_templates z m ts = Inr z'" "\<not> prefix ''templates/'' k"
  shows "map_of z' k = map_of z k"
proof -
  have n: "\<forall>t\<in>set ts. ''templates/'' @ template_id t @ ''.json'' \<noteq> k"
    "k \<noteq> ''templates/''" "k \<noteq> ''templates/index.json''"
    using assms(2) by (auto simp: prefix_def)
  from assms(1) obtain md where
    "z' = foldl (\<lambda>z t. zip_put z (''templates/'' @ template_id t @ ''.json'')
                          (JsonFile (template_json t)))
            (zip_put (zip_put z ''templates/'' Folder) ''templates/index.json''
               (JsonFile (templates_index (get md ''version'') ts))) ts"
    by (auto simp: add_templates_def split: if_splits option.splits json.splits)
  then show ?thesis
    using map_of_foldl_zip_put[OF n(1)] n(2,3) by (simp add: map_of_zip_put)
qed

lemma add_scripts_keeps:
  assumes "\<not> prefix ''scripts/'' k"
  shows "map_of (add_scripts z ss) k = map_of z k"
proof -
  have n: "\<forall>s\<in>set ss. ''scripts/'' @ script_name s \<noteq> k" "k \<noteq> ''scripts/''"
    using assms by (auto simp: prefix_def)
  show ?thesis
    unfolding add_scripts_def using map_of_foldl_zip_put[OF n(1)] n(2)
    by (simp add: map_of_zip_put)
qed

lemma add_schemas_keeps:
  assumes "\<not> prefix ''schemas/'' k"
  shows "map_of (add_schemas z ss) k = map_of z k"
proof -
  have n: "\<forall>s\<in>set ss. ''schemas/'' @ schema_name s \<noteq> k" "k \<noteq> ''schemas/''"
    using assms by (auto simp: prefix_def)
  show ?thesis
    unfolding add_schemas_def using map_of_foldl_zip_put[OF n(1)] n(2)
    by (simp add: map_of_zip_put)
qed

lemma add_documentation_keeps:
  assumes "k \<noteq> ''README.md''" "k \<noteq> ''CHANGELOG.md''" "k \<noteq> ''LICENSE''"
  shows "map_of (add_documentation z doc) k = map_of z k"
  using assms by (simp add: add_documentation_def map_of_put_text)


lemma buildPackage_parts:
  assumes "buildPackage d = Inr z"
  shows "\<exists>z1 z2 z3.
           (case pkg_templates d of
              None \<Rightarrow> z1 = [(''manifest.json'', JsonFile (pkg_manifest d))]
            | Some ts \<Rightarrow>
                if length ts > 0
                then add_templates [(''manifest.json'', JsonFile (pkg_manifest d))]
                       (pkg_manifest d) ts = Inr z1
                else z1 = [(''manifest.json'', JsonFile (pkg_manifest d))])
         \<and> (z2 = z1 \<or> (\<exists>ss. z2 = add_scripts z1 ss))
         \<and> (z3 = z2 \<or> (\<exists>ss. z3 = add_schemas z2 ss))
         \<and> (z = z3 \<or> (\<exists>doc. z = add_documentation z3 doc))"
  using assms unfolding buildPackage_def Let_def
  by (auto split: option.splits if_splits sum.splits)

lemma buildPackage_keeps:
  assumes "buildPackage d = Inr z" "\<not> prefix ''scripts/'' k" "\<not> prefix ''schemas/'' k"
    "k \<noteq> ''README.md''" "k \<noteq> ''CHANGELOG.md''" "k \<noteq> ''LICENSE''"
  shows "\<exists>z1. map_of z k = map_of z1 k
           \<and> (case pkg_templates d of
                 None \<Rightarrow> z1 = [(''manifest.json'', JsonFile (pkg_manifest d))]
               | Some ts \<Rightarrow>
                   if length ts > 0
                   then add_templates [(''manifest.json'', JsonFile (pkg_manifest d))]
                          (pkg_manifest d) ts = Inr z1
                   else z1 = [(''manifest.json'', JsonFile (pkg_manifest d))])"
proof -
  obtain z1 z2 z3 where p:
    "case pkg_templates d of
       None \<Rightarrow> z1 = [(''manifest.json'', JsonFile (pkg_manifest d))]
     | Some ts \<Rightarrow>
         if length ts > 0
         then add_templates [(''manifest.json'', JsonFile (pkg_manifest d))]
                (pkg_manifest d) ts = Inr z1
         else z1 = [(''manifest.json'', JsonFile (pkg_manifest d))]"
    "z2 = z1 \<or> (\<exists>ss. z2 = add_scripts z1 ss)"
    "z3 = z2 \<or> (\<exists>ss. z3 = add_schemas z2 ss)"
    "z = z3 \<or> (\<exists>doc. z = add_documentation z3 doc)"
    using buildPackage_parts[OF assms(1)] by blast
  have "map_of z k = map_of z3 k"
    using p(4) add_documentation_keeps[OF assms(4,5,6)] by auto
  also have "\<dots> = map_of z2 k"
    using p(3) add_schemas_keeps[OF assms(3)] by auto
  also have "\<dots> = map_of z1 k"
    using p(2) add_scripts_keeps[OF assms(2)] by auto
  finally show ?thesis using p(1) by blast
qed

lemma buildPackage_manifest:
  assumes "buildPackage d = Inr z"
  shows "zip_file z ''manifest.json'' = Some (JsonFile (pkg_manifest d))"
proof -
  obtain z1 where z1: "map_of z ''manifest.json'' = map_of z1 ''manifest.json''"
    and t: "case pkg_templates d of
       None \<Rightarrow> z1 = [(''manifest.json'', JsonFile (pkg_manifest d))]
     | Some ts \<Rightarrow>
         if length ts > 0
         then add_templates [(''manifest.json'', JsonFile (pkg_manifest d))]
                (pkg_manifest d) ts = Inr z1
         else z1 = [(''manifest.json'', JsonFile (pkg_manifest d))]"
    using buildPackage_keeps[OF assms, of "''manifest.json''"] by auto
  have "map_of z1 ''manifest.json'' = Some (JsonFile (pkg_manifest d))"
  proof (cases "\<exists>ts. pkg_templates d = Some ts \<and> length ts > 0")
    case True
    then obtain ts where
      "add_templates [(''manifest.json'', JsonFile (pkg_manifest d))] (pkg_manifest d) ts = Inr z1"
      using t by auto
    from add_templates_keeps[OF this, of "''manifest.json''"] show ?thesis by simp
  next
    case False
    then have "z1 = [(''manifest.json'', JsonFile (pkg_manifest d))]"
      using t by (auto split: option.splits if_splits)
    then show ?thesis by simp
  qed
  then show ?thesis by (simp add: zip_file_def z1)
qed

lemma buildPackage_no_index:
  assumes "buildPackage d = Inr z" "pkg_templates d = None \<or> pkg_templates d = Some []"
  shows "read_templates z = None"
proof -
  obtain z1 where z1: "map_of z ''templates/index.json'' = map_of z1 ''templates/index.json''"
    and t: "case pkg_templates d of
       None \<Rightarrow> z1 = [(''manifest.json'', JsonFile (pkg_manifest d))]
     | Some ts \<Rightarrow>
         if length ts > 0
         then add_templates [(''manifest.json'', JsonFile (pkg_manifest d))]
                (pkg_manifest d) ts = Inr z1
         else z1 = [(''manifest.json'', JsonFile (pkg_manifest d))]"
    using buildPackage_keeps[OF assms(1), of "''templates/index.json''"] by auto
  have "z1 = [(''manifest.json'', JsonFile (pkg_manifest d))]"
    using t assms(2) by auto
  then have "zip_file z ''templates/index.json'' = None"
    by (simp add: zip_file_def z1)
  then show ?thesis by (simp add: read_templates_def)
qed

lemma validatePackage_valid:
  "pkg_valid (validatePackage createHash z) \<longleftrightarrow>
     (\<exists>m. extractPackage z = Inr m \<and> m \<noteq> JNull
          \<and> stored_checksum m = Some (JStr (createHash ''sha256'' (stringify m))))"
  by (auto simp: validatePackage_def computeChecksum_def computeSHA256_def Let_def
      split: sum.splits js_error.splits)

lemma validatePackage_mismatch:
  assumes "extractPackage z = Inr m" "m \<noteq> JNull"
    "stored_checksum m \<noteq> Some (JStr (createHash ''sha256'' (stringify m)))"
  shows "validatePackage createHash z =
           \<lparr>pkg_valid = False,
            pkg_errors = [''Manifest checksum mismatch - possible tampering'']\<rparr>"
  using assms
  by (simp add: validatePackage_def computeChecksum_def computeSHA256_def Let_def)

text \<open>
  Claim C1 does not hold of the code: \<open>validatePackage\<close> hashes the extracted manifest
  with its \<open>integrity\<close> member, where \<open>generateIntegrity\<close> hashed it without. For every
  digest function, every package data whose manifest satisfies the integrity invariant and
  every archive that \<open>buildPackage\<close> makes of it: the two texts that are hashed differ;
  \<open>validatePackage\<close> reports the archive valid exactly when extraction succeeds and the
  digest has the same value on both texts (a collision); and when the digest differs on
  them and the data has no template, the result is the checksum mismatch, not
  \<open>{valid: true, errors: []}\<close>.
\<close>

theorem C1_validatePackage_hashes_integrity:
  assumes "integrity_invariant createHash (pkg_manifest d)" and "buildPackage d = Inr z"
  shows "stringify (pkg_manifest d) \<noteq> stringify (without_integrity (pkg_manifest d))
       \<and> (pkg_valid (validatePackage createHash z) \<longleftrightarrow>
            extractPackage z = Inr (pkg_manifest d)
            \<and> createHash ''sha256'' (stringify (pkg_manifest d))
                = createHash ''sha256'' (stringify (without_integrity (pkg_manifest d))))
       \<and> (createHash ''sha256'' (stringify (pkg_manifest d))
             \<noteq> createHash ''sha256'' (stringify (without_integrity (pkg_manifest d)))
            \<and> (pkg_templates d = None \<or> pkg_templates d = Some []) \<longrightarrow>
          validatePackage createHash z =
            \<lparr>pkg_valid = False,
             pkg_errors = [''Manifest checksum mismatch - possible tampering'']\<rparr>)"
proof -
  let ?m = "pkg_manifest d"
  have stored: "stored_checksum ?m
                  = Some (JStr (createHash ''sha256'' (stringify (without_integrity ?m))))"
    using assms(1)
    by (simp add: integrity_invariant_def computeChecksum_def computeSHA256_def)
  have nn: "?m \<noteq> JNull"
    using invariant_has_integrity[OF assms(1)] by auto
  have ex: "extractPackage z = Inr m \<Longrightarrow> m = ?m" for m
    using buildPackage_manifest[OF assms(2)]
    by (auto simp: extractPackage_def split: option.splits)
  have 1: "stringify ?m \<noteq> stringify (without_integrity ?m)"
    by (rule stamped_text_differs[OF assms(1)])
  have 2: "pkg_valid (validatePackage createHash z) \<longleftrightarrow>
            extractPackage z = Inr ?m
            \<and> createHash ''sha256'' (stringify ?m)
                = createHash ''sha256'' (stringify (without_integrity ?m))"
    unfolding validatePackage_valid using ex stored nn by auto
  have 3: "validatePackage createHash z =
            \<lparr>pkg_valid = False,
             pkg_errors = [''Manifest checksum mismatch - possible tampering'']\<rparr>"
    if c: "createHash ''sha256'' (stringify ?m)
             \<noteq> createHash ''sha256'' (stringify (without_integrity ?m))"
      and t: "pkg_templates d = None \<or> pkg_templates d = Some []"
  proof -
    have "extractPackage z = Inr ?m"
      using buildPackage_manifest[OF assms(2)] buildPackage_no_index[OF assms(2) t]
      by (simp add: extractPackage_def)
    then show ?thesis
      using validatePackage_mismatch[of z ?m createHash] nn stored c by simp
  qed
  show ?thesis using 1 2 3 by blast
qed


lemma plain_digest_inj: "plain_digest a x = plain_digest a y \<longleftrightarrow> x = y"
  by (simp add: plain_digest_def)

theorem C1_validatePackage_hashes_integrity_witness:
  "integrity_invariant plain_digest (pkg_manifest (stamped_package plain_digest))
   \<and> buildPackage (stamped_package plain_digest)
       = Inr [(''manifest.json'', JsonFile (stamp plain_digest mathpack_json))]
   \<and> validatePackage plain_digest
         [(''manifest.json'', JsonFile (stamp plain_digest mathpack_json))]
       = \<lparr>pkg_valid = False,
          pkg_errors = [''Manifest checksum mismatch - possible tampering'']\<rparr>"
proof -
  let ?z = "[(''manifest.json'', JsonFile (stamp plain_digest mathpack_json))]"
  have i: "integrity_invariant plain_digest (pkg_manifest (stamped_package plain_digest))"
    by (simp add: stamped_package_def mathpack_json_def stamp_invariant)
  have b: "buildPackage (stamped_package plain_digest) = Inr ?z"
    by (simp add: buildPackage_def stamped_package_def)
  have t: "pkg_templates (stamped_package plain_digest) = None"
    by (simp add: stamped_package_def)
  have m: "pkg_manifest (stamped_package plain_digest) = stamp plain_digest mathpack_json"
    by (simp add: stamped_package_def)
  note C1_validatePackage_hashes_integrity[OF i b]
  then have "validatePackage plain_digest ?z =
               \<lparr>pkg_valid = False,
                pkg_errors = [''Manifest checksum mismatch - possible tampering'']\<rparr>"
    unfolding plain_digest_inj using t by blast
  then show ?thesis using i b by simp
qed

end
